(* ===== verification/Prelude.thy ===== *)
theory Prelude
  imports Main
begin

text \<open>
  Shared vocabulary of the GoIP development: the names of the model's types, the
  control characters the protocol code treats specially, the collections of
  rewrite rules the component theories fill, and generic lemmas on lists,
  options and sums that several components use.

  A Go \<open>string\<close> is a sequence of bytes; Isabelle's \<open>char\<close> is a byte, so a Go
  string is modelled as \<^typ>\<open>string\<close> (a \<open>char list\<close>) and a byte at position
  \<open>i\<close> as \<open>s ! i\<close>.
\<close>

type_synonym go_string = string
type_synonym udp_addr = string

abbreviation LF :: char where "LF \<equiv> CHR 0x0A"
abbreviation CR :: char where "CR \<equiv> CHR 0x0D"
abbreviation DQUOTE :: char where "DQUOTE \<equiv> CHR 0x22"

named_theorems go_simps \<open>evaluation rules of the modelled Go library functions\<close>
named_theorems handler_simps \<open>evaluation rules of the datagram handlers\<close>

subsection \<open>Lists\<close>

lemma find_Some_mem:
  "find P xs = Some x \<Longrightarrow> x \<in> set xs \<and> P x"
  by (induction xs) (auto split: if_splits)

lemma find_None_not:
  "find P xs = None \<Longrightarrow> x \<in> set xs \<Longrightarrow> \<not> P x"
  by (simp add: find_None_iff)

subsection \<open>Sums used as results\<close>

lemma map_sum_Cons_Inr [simp]:
  "map_sum id (Cons x) r = Inr ys \<longleftrightarrow> (\<exists>zs. r = Inr zs \<and> ys = x # zs)"
  by (cases r) auto

lemma map_sum_Cons_Inl [simp]:
  "map_sum id (Cons x) r = Inl e \<longleftrightarrow> r = Inl e"
  by (cases r) auto

end
