(* ===== verification/Go_Strings.thy ===== *)
theory Go_Strings
  imports Prelude
begin

text \<open>
  The functions of Go's \<open>strings\<close> package that \<open>src/main.go\<close> calls, modelled on
  byte strings from their documented behaviour (the package is not part of the
  repository): \<open>HasPrefix\<close> (the classifier), \<open>Index\<close> and \<open>SplitN\<close> (removal of
  the \<open>RECEIVE:\<close> marker), \<open>Split\<close> with a one-byte separator (fields and
  key/value pairs), \<open>ReplaceAll\<close> with one-byte strings (keep-alive
  normalisation) and \<open>TrimSpace\<close> (keys and values).  Arguments keep Go's order:
  the string first.

  The lemmas give each function's characteristic equations, the round trip of
  \<open>Split\<close> with \<open>Join\<close>, and the facts about \<open>TrimSpace\<close> that the parser's
  properties need: its result is a substring of its argument, carries no
  leading or trailing white space, and trimming twice is trimming once.
\<close>

subsection \<open>HasPrefix, HasSuffix, Index\<close>

fun has_prefix :: "go_string \<Rightarrow> go_string \<Rightarrow> bool" where
  "has_prefix s [] = True"
| "has_prefix [] (p # ps) = False"
| "has_prefix (c # cs) (p # ps) = (c = p \<and> has_prefix cs ps)"

definition has_suffix :: "go_string \<Rightarrow> go_string \<Rightarrow> bool" where
  "has_suffix s suffix =
     (length suffix \<le> length s \<and> drop (length s - length suffix) s = suffix)"

text \<open>\<open>strings.Index(s, substr)\<close>: the first position of \<open>substr\<close> in \<open>s\<close>; Go's \<open>-1\<close> is \<open>None\<close>.\<close>

fun str_index :: "go_string \<Rightarrow> go_string \<Rightarrow> nat option" where
  "str_index [] sep = (if sep = [] then Some 0 else None)"
| "str_index (c # cs) sep =
     (if has_prefix (c # cs) sep then Some 0 else map_option Suc (str_index cs sep))"

subsection \<open>Split and SplitN\<close>

text \<open>
  \<open>strings.Split(s, sep)\<close> for a one-byte \<open>sep\<close> (both calls in the source split on
  \<open>";"\<close> or \<open>":"\<close>): the loop of Go's \<open>genSplit\<close> that cuts the string at every
  occurrence, with the piece under construction as accumulator.
\<close>

fun split_acc :: "char \<Rightarrow> go_string \<Rightarrow> go_string \<Rightarrow> go_string list" where
  "split_acc d acc [] = [acc]"
| "split_acc d acc (c # cs) =
     (if c = d then acc # split_acc d [] cs else split_acc d (acc @ [c]) cs)"

definition go_split :: "go_string \<Rightarrow> char \<Rightarrow> go_string list" where
  "go_split s d = split_acc d [] s"

text \<open>
  \<open>strings.Join(elems, sep)\<close> for a one-byte \<open>sep\<close>; the source does not call it,
  it states the round trip of \<open>Split\<close>.
\<close>

fun go_join :: "go_string list \<Rightarrow> char \<Rightarrow> go_string" where
  "go_join [] d = []"
| "go_join [f] d = f"
| "go_join (f # g # fs) d = f @ d # go_join (g # fs) d"

text \<open>
  \<open>strings.SplitN(s, sep, n)\<close> for \<open>n \<ge> 0\<close> and a non-empty \<open>sep\<close>: at most
  \<open>n\<close> pieces, cut at the first \<open>n - 1\<close> occurrences; the rest stays whole.
\<close>

fun go_splitn :: "go_string \<Rightarrow> go_string \<Rightarrow> nat \<Rightarrow> go_string list" where
  "go_splitn s sep n =
     (if n = 0 then []
      else if n = 1 then [s]
      else (case str_index s sep of
              None \<Rightarrow> [s]
            | Some i \<Rightarrow> take i s # go_splitn (drop (i + length sep) s) sep (n - 1)))"

subsection \<open>ReplaceAll\<close>

definition replace_all :: "go_string \<Rightarrow> char \<Rightarrow> char \<Rightarrow> go_string" where
  "replace_all s old new = map (\<lambda>c. if c = old then new else c) s"

subsection \<open>TrimSpace\<close>

text \<open>
  \<open>strings.TrimSpace\<close> removes the leading and trailing runes for which
  \<open>unicode.IsSpace\<close> holds: the six ASCII spaces, U+0085, U+00A0 and the
  Unicode \<open>White_Space\<close> runes above Latin-1.  On bytes, a rune is its UTF-8
  encoding (\<open>utf8.EncodeRune\<close>); \<open>DecodeRune\<close> at the front (and
  \<open>DecodeLastRune\<close> at the back) yields a space rune exactly when the string
  starts (ends) with one of these encodings, so trimming drops such encodings
  one at a time.
\<close>

text \<open>\<open>unicode.IsSpace\<close>: the Latin-1 switch, then the \<open>White_Space\<close> table.\<close>

definition is_space_rune :: "nat \<Rightarrow> bool" where
  "is_space_rune r =
     (if r \<le> 0xFF then r \<in> {0x09, 0x0A, 0x0B, 0x0C, 0x0D, 0x20, 0x85, 0xA0}
      else r = 0x1680 \<or> (0x2000 \<le> r \<and> r \<le> 0x200A) \<or> r = 0x2028 \<or> r = 0x2029 \<or>
           r = 0x202F \<or> r = 0x205F \<or> r = 0x3000)"

text \<open>\<open>utf8.EncodeRune\<close> on valid runes (below U+110000, no surrogate).\<close>

definition utf8_encode :: "nat \<Rightarrow> go_string" where
  "utf8_encode r =
     (if r < 0x80 then [char_of r]
      else if r < 0x800 then [char_of (0xC0 + r div 0x40), char_of (0x80 + r mod 0x40)]
      else if r < 0x10000 then
        [char_of (0xE0 + r div 0x1000), char_of (0x80 + r div 0x40 mod 0x40), char_of (0x80 + r mod 0x40)]
      else [char_of (0xF0 + r div 0x40000), char_of (0x80 + r div 0x1000 mod 0x40),
            char_of (0x80 + r div 0x40 mod 0x40), char_of (0x80 + r mod 0x40)])"

definition white_space_runes :: "nat list" where
  "white_space_runes =
     [0x09, 0x0A, 0x0B, 0x0C, 0x0D, 0x20, 0x85, 0xA0, 0x1680] @ [0x2000..<0x200B] @
     [0x2028, 0x2029, 0x202F, 0x205F, 0x3000]"

definition go_space_encodings :: "go_string list" where
  "go_space_encodings = map utf8_encode white_space_runes"

function trim_left_space :: "go_string \<Rightarrow> go_string" where
  "trim_left_space s =
     (case find (has_prefix s) go_space_encodings of
        None \<Rightarrow> s
      | Some e \<Rightarrow> trim_left_space (drop (length e) s))"
  by pat_completeness auto
termination
proof (relation "measure length")
  fix s e
  assume "find (has_prefix s) go_space_encodings = Some e"
  then have "e \<in> set go_space_encodings" and "has_prefix s e"
    by (auto dest: find_Some_mem)
  moreover have "length e \<le> length s" if "has_prefix s e"
    using that by (induction s e rule: has_prefix.induct) auto
  ultimately have "e \<noteq> []" and "length e \<le> length s"
    by (auto simp: go_space_encodings_def utf8_encode_def)
  then show "(drop (length e) s, s) \<in> measure length"
    by (cases e) auto
qed simp

function trim_right_space :: "go_string \<Rightarrow> go_string" where
  "trim_right_space s =
     (case find (has_suffix s) go_space_encodings of
        None \<Rightarrow> s
      | Some e \<Rightarrow> trim_right_space (take (length s - length e) s))"
  by pat_completeness auto
termination
proof (relation "measure length")
  fix s e
  assume "find (has_suffix s) go_space_encodings = Some e"
  then have "e \<in> set go_space_encodings" and "has_suffix s e"
    by (auto dest: find_Some_mem)
  then have "e \<noteq> []" and "length e \<le> length s"
    by (auto simp: has_suffix_def go_space_encodings_def utf8_encode_def)
  then show "(take (length s - length e) s, s) \<in> measure length"
    by (cases e) auto
qed simp

definition trim_space :: "go_string \<Rightarrow> go_string" where
  "trim_space s = trim_right_space (trim_left_space s)"

declare trim_left_space.simps [simp del] trim_right_space.simps [simp del]

text \<open>Evaluation of the string functions on concrete arguments.\<close>

lemmas trim_left_space_eval [go_simps] =
  trim_left_space.simps [of "[]"] trim_left_space.simps [of "c # cs" for c cs]

lemmas trim_right_space_eval [go_simps] =
  trim_right_space.simps [of "[]"] trim_right_space.simps [of "c # cs" for c cs]

declare go_split_def [go_simps] trim_space_def [go_simps]
  has_suffix_def [go_simps] replace_all_def [go_simps]

subsection \<open>Lemmas\<close>

text \<open>The encodings as bytes, the form in which the trimming functions evaluate.\<close>

lemma go_space_encodings_bytes [go_simps]:
  "go_space_encodings =
     [[CHR 0x09], [CHR 0x0A], [CHR 0x0B], [CHR 0x0C], [CHR 0x0D], [CHR 0x20],
      [CHR 0xC2, CHR 0x85], [CHR 0xC2, CHR 0xA0],
      [CHR 0xE1, CHR 0x9A, CHR 0x80],
      [CHR 0xE2, CHR 0x80, CHR 0x80], [CHR 0xE2, CHR 0x80, CHR 0x81],
      [CHR 0xE2, CHR 0x80, CHR 0x82], [CHR 0xE2, CHR 0x80, CHR 0x83],
      [CHR 0xE2, CHR 0x80, CHR 0x84], [CHR 0xE2, CHR 0x80, CHR 0x85],
      [CHR 0xE2, CHR 0x80, CHR 0x86], [CHR 0xE2, CHR 0x80, CHR 0x87],
      [CHR 0xE2, CHR 0x80, CHR 0x88], [CHR 0xE2, CHR 0x80, CHR 0x89],
      [CHR 0xE2, CHR 0x80, CHR 0x8A],
      [CHR 0xE2, CHR 0x80, CHR 0xA8], [CHR 0xE2, CHR 0x80, CHR 0xA9],
      [CHR 0xE2, CHR 0x80, CHR 0xAF], [CHR 0xE2, CHR 0x81, CHR 0x9F],
      [CHR 0xE3, CHR 0x80, CHR 0x80]]"
  by (simp add: go_space_encodings_def white_space_runes_def utf8_encode_def char_of_def upt_rec bit_0)

lemma white_space_runes_iff: "r \<in> set white_space_runes \<longleftrightarrow> is_space_rune r"
  unfolding white_space_runes_def is_space_rune_def set_append set_upt by auto

text \<open>The encodings are exactly those of the runes \<open>unicode.IsSpace\<close> accepts.\<close>

lemma go_space_encodings_is_space:
  "set go_space_encodings = utf8_encode ` {r. is_space_rune r}"
  by (auto simp: go_space_encodings_def white_space_runes_iff)

lemma go_space_encodings_nonempty [simp]: "[] \<notin> set go_space_encodings"
  by (auto simp: go_space_encodings_def utf8_encode_def)

lemma has_prefix_iff: "has_prefix s p \<longleftrightarrow> (\<exists>t. s = p @ t)"
  by (induction s p rule: has_prefix.induct) auto

lemma has_prefix_length: "has_prefix s p \<Longrightarrow> length p \<le> length s"
  by (auto simp: has_prefix_iff)

lemma has_suffix_iff: "has_suffix s p \<longleftrightarrow> (\<exists>t. s = t @ p)"
proof
  assume "has_suffix s p"
  then have "s = take (length s - length p) s @ p"
    by (metis append_take_drop_id has_suffix_def)
  then show "\<exists>t. s = t @ p" ..
next
  assume "\<exists>t. s = t @ p"
  then show "has_suffix s p" by (auto simp: has_suffix_def)
qed

lemma split_acc_acc:
  "split_acc d acc s = (acc @ hd (split_acc d [] s)) # tl (split_acc d [] s)"
proof (induction s arbitrary: acc)
  case Nil
  then show ?case by simp
next
  case (Cons c cs)
  show ?case
  proof (cases "c = d")
    case True
    then show ?thesis by simp
  next
    case False
    then have "split_acc d acc (c # cs) = split_acc d (acc @ [c]) cs" by simp
    also have "\<dots> = (acc @ [c] @ hd (split_acc d [] cs)) # tl (split_acc d [] cs)"
      using Cons.IH [of "acc @ [c]"] by simp
    also have "split_acc d [] (c # cs) = ([c] @ hd (split_acc d [] cs)) # tl (split_acc d [] cs)"
      using Cons.IH [of "[c]"] False by simp
    ultimately show ?thesis by simp
  qed
qed


lemma go_split_Nil [simp]: "go_split [] d = [[]]"
  by (simp add: go_split_def)

lemma go_split_Cons:
  "go_split (c # cs) d =
     (if c = d then [] # go_split cs d
      else (c # hd (go_split cs d)) # tl (go_split cs d))"
proof (cases "c = d")
  case True
  then show ?thesis by (simp add: go_split_def)
next
  case False
  have "split_acc d [c] cs = ([c] @ hd (split_acc d [] cs)) # tl (split_acc d [] cs)"
    by (rule split_acc_acc)
  with False show ?thesis by (simp add: go_split_def)
qed

lemma go_split_not_Nil [simp]: "go_split s d \<noteq> []"
  by (cases s) (simp_all add: go_split_Cons)


lemma go_split_join: "go_join (go_split s d) d = s"
proof (induction s)
  case Nil
  then show ?case by simp
next
  case (Cons c cs)
  obtain f fs where split: "go_split cs d = f # fs"
    by (cases "go_split cs d") auto
  with Cons.IH have "go_join (f # fs) d = cs" by simp
  then show ?case
    using split by (cases fs) (auto simp: go_split_Cons)
qed

lemma go_split_sep_free: "f \<in> set (go_split s d) \<Longrightarrow> d \<notin> set f"
proof (induction s arbitrary: f)
  case Nil
  then show ?case by simp
next
  case (Cons c cs)
  obtain g gs where split: "go_split cs d = g # gs"
    by (cases "go_split cs d") auto
  with Cons show ?case by (auto simp: go_split_Cons split: if_splits)
qed

lemma go_split_no_sep: "d \<notin> set s \<Longrightarrow> go_split s d = [s]"
  by (induction s) (auto simp: go_split_Cons)

lemma go_split_append_sep:
  "d \<notin> set a \<Longrightarrow> go_split (a @ d # b) d = a # go_split b d"
  by (induction a) (auto simp: go_split_Cons)

lemma length_go_split: "length (go_split s d) = Suc (count_list s d)"
proof (induction s)
  case (Cons c cs)
  then show ?case
    by (cases "go_split cs d") (auto simp: go_split_Cons)
qed simp

lemma go_join_split:
  "fs \<noteq> [] \<Longrightarrow> \<forall>f \<in> set fs. d \<notin> set f \<Longrightarrow> go_split (go_join fs d) d = fs"
proof (induction fs d rule: go_join.induct)
  case (2 f d)
  then show ?case by (simp add: go_split_no_sep)
next
  case (3 f g fs d)
  then show ?case by (simp add: go_split_append_sep)
qed simp


lemma str_index_has_prefix: "has_prefix s sep \<Longrightarrow> str_index s sep = Some 0"
  by (cases s; cases sep) auto

lemma str_index_Some:
  "str_index s sep = Some i \<Longrightarrow> i \<le> length s \<and> has_prefix (drop i s) sep"
  by (induction s sep arbitrary: i rule: str_index.induct) (auto split: if_splits)

lemma str_index_first:
  "str_index s sep = Some i \<Longrightarrow> j < i \<Longrightarrow> \<not> has_prefix (drop j s) sep"
proof (induction s sep arbitrary: i j rule: str_index.induct)
  case (2 c cs sep)
  then show ?case by (cases j) (auto split: if_splits)
qed (auto split: if_splits)

lemma str_index_None:
  "str_index s sep = None \<longleftrightarrow> (\<forall>j \<le> length s. \<not> has_prefix (drop j s) sep)"
proof (induction s sep rule: str_index.induct)
  case (1 sep)
  then show ?case by (cases sep) auto
next
  case (2 c cs sep)
  show ?case
  proof
    assume none: "str_index (c # cs) sep = None"
    show "\<forall>j \<le> length (c # cs). \<not> has_prefix (drop j (c # cs)) sep"
    proof (intro allI impI)
      fix j assume "j \<le> length (c # cs)"
      with none "2.IH" show "\<not> has_prefix (drop j (c # cs)) sep"
        by (cases j) (auto split: if_splits)
    qed
  next
    assume all: "\<forall>j \<le> length (c # cs). \<not> has_prefix (drop j (c # cs)) sep"
    then have "\<not> has_prefix (c # cs) sep" by (metis drop0 zero_le)
    moreover have "\<forall>j \<le> length cs. \<not> has_prefix (drop j cs) sep"
      using all by (metis Suc_le_mono drop_Suc_Cons length_Cons)
    ultimately show "str_index (c # cs) sep = None" using "2.IH" by simp
  qed
qed

lemma go_splitn_2:
  "go_splitn s sep 2 =
     (case str_index s sep of
        None \<Rightarrow> [s]
      | Some i \<Rightarrow> [take i s, drop (i + length sep) s])"
  by (simp split: option.split)

lemma trim_left_space_suffix: "\<exists>p. s = p @ trim_left_space s"
proof (induction s rule: trim_left_space.induct)
  case (1 s)
  show ?case
  proof (cases "find (has_prefix s) go_space_encodings")
    case None
    then show ?thesis by (simp add: trim_left_space.simps)
  next
    case (Some e)
    with "1.IH" obtain p where p: "drop (length e) s = p @ trim_left_space (drop (length e) s)"
      by blast
    have "s = take (length e) s @ drop (length e) s" by simp
    with p Some show ?thesis
      by (metis append.assoc trim_left_space.simps option.simps(5))
  qed
qed

lemma trim_left_space_clean:
  "find (has_prefix (trim_left_space s)) go_space_encodings = None"
proof (induction s rule: trim_left_space.induct)
  case (1 s)
  then show ?case
    by (cases "find (has_prefix s) go_space_encodings") (simp_all add: trim_left_space.simps)
qed

lemma trim_left_space_id:
  "find (has_prefix s) go_space_encodings = None \<Longrightarrow> trim_left_space s = s"
  by (simp add: trim_left_space.simps)

lemma trim_right_space_prefix: "\<exists>q. s = trim_right_space s @ q"
proof (induction s rule: trim_right_space.induct)
  case (1 s)
  show ?case
  proof (cases "find (has_suffix s) go_space_encodings")
    case None
    then show ?thesis by (simp add: trim_right_space.simps)
  next
    case (Some e)
    let ?t = "take (length s - length e) s"
    from "1.IH" Some obtain q where q: "?t = trim_right_space ?t @ q"
      by blast
    have "s = ?t @ drop (length s - length e) s" by simp
    with q Some show ?thesis
      by (metis append.assoc trim_right_space.simps option.simps(5))
  qed
qed

lemma trim_right_space_clean:
  "find (has_suffix (trim_right_space s)) go_space_encodings = None"
proof (induction s rule: trim_right_space.induct)
  case (1 s)
  then show ?case
    by (cases "find (has_suffix s) go_space_encodings") (simp_all add: trim_right_space.simps)
qed

lemma trim_right_space_id:
  "find (has_suffix s) go_space_encodings = None \<Longrightarrow> trim_right_space s = s"
  by (simp add: trim_right_space.simps)

lemma has_prefix_append_right: "has_prefix t e \<Longrightarrow> has_prefix (t @ q) e"
  by (auto simp: has_prefix_iff)

lemma trim_right_space_keeps_clean:
  assumes "find (has_prefix s) go_space_encodings = None"
  shows "find (has_prefix (trim_right_space s)) go_space_encodings = None"
proof -
  obtain q where q: "s = trim_right_space s @ q"
    using trim_right_space_prefix by blast
  have "\<not> has_prefix (trim_right_space s) e" if "e \<in> set go_space_encodings" for e
    using assms that q has_prefix_append_right by (metis find_None_not)
  then show ?thesis by (simp add: find_None_iff)
qed

lemma trim_space_infix: "\<exists>p q. s = p @ trim_space s @ q"
  by (metis append.assoc trim_left_space_suffix trim_right_space_prefix trim_space_def)

lemma trim_space_clean:
  "e \<in> set go_space_encodings \<Longrightarrow>
     \<not> has_prefix (trim_space s) e \<and> \<not> has_suffix (trim_space s) e"
  using trim_right_space_keeps_clean [OF trim_left_space_clean [of s]]
        trim_right_space_clean [of "trim_left_space s"]
  by (auto simp: trim_space_def dest: find_None_not)

lemma trim_space_idem: "trim_space (trim_space s) = trim_space s"
proof -
  let ?t = "trim_space s"
  have "find (has_prefix ?t) go_space_encodings = None"
    and "find (has_suffix ?t) go_space_encodings = None"
    using trim_space_clean [of _ s] by (auto simp: find_None_iff)
  then show ?thesis
    by (simp add: trim_space_def [of ?t] trim_left_space_id trim_right_space_id)
qed

end
