(* ===== verification/GoIP_Receive.thy ===== *)
theory GoIP_Receive
  imports Go_Strings "HOL-Library.Multiset"
begin

text \<open>
  The RECEIVE parser, \<open>parseGoIPMessage\<close> of \<open>src/main.go\<close> (lines 95--135), and
  the \<open>GoIPMessage\<close> struct it fills (lines 12--19).  The function removes the
  \<open>RECEIVE:\<close> marker with \<open>strings.SplitN\<close>, cuts the rest at \<open>;\<close>, cuts each
  field at \<open>:\<close>, skips fields that do not give exactly two parts, trims key and
  value, and stores the value under the four recognised keys.

  The abstract specification \<open>receive_spec\<close> reads the message off the list of
  well-formed key/value pairs: each recognised attribute is the value of the
  last pair with that key, or empty.  The lemmas prove the parser refines it,
  characterise the one error, show that malformed fields and unknown keys are
  skipped, that the order of fields does not matter when no recognised key is
  repeated, and that every parsed attribute is trimmed and free of the two
  delimiters.
\<close>

subsection \<open>Data and operations\<close>

record GoIPMessage =
  ID :: go_string
  Password :: go_string
  SrcNum :: go_string
  Message :: go_string
  RemoteAddr :: udp_addr

datatype parse_error = InvalidFormat

text \<open>\<open>&GoIPMessage{RemoteAddr: remoteAddr}\<close>: every other field is Go's zero value.\<close>

definition new_message :: "udp_addr \<Rightarrow> GoIPMessage" where
  "new_message remoteAddr =
     \<lparr>ID = [], Password = [], SrcNum = [], Message = [], RemoteAddr = remoteAddr\<rparr>"

text \<open>The \<open>switch key\<close> statement.\<close>

definition set_field :: "GoIPMessage \<Rightarrow> go_string \<Rightarrow> go_string \<Rightarrow> GoIPMessage" where
  "set_field message key value =
     (if key = ''id'' then message\<lparr>ID := value\<rparr>
      else if key = ''password'' then message\<lparr>Password := value\<rparr>
      else if key = ''srcnum'' then message\<lparr>SrcNum := value\<rparr>
      else if key = ''msg'' then message\<lparr>Message := value\<rparr>
      else message)"

text \<open>One iteration of the \<open>for _, field := range fields\<close> loop.\<close>

definition apply_field :: "GoIPMessage \<Rightarrow> go_string \<Rightarrow> GoIPMessage" where
  "apply_field message field =
     (let parts = go_split field CHR '':''
      in if length parts \<noteq> 2 then message
         else set_field message (trim_space (parts ! 0)) (trim_space (parts ! 1)))"

primrec apply_fields :: "GoIPMessage \<Rightarrow> go_string list \<Rightarrow> GoIPMessage" where
  "apply_fields message [] = message"
| "apply_fields message (field # rest) = apply_fields (apply_field message field) rest"

definition parseGoIPMessage :: "go_string \<Rightarrow> udp_addr \<Rightarrow> parse_error + GoIPMessage" where
  "parseGoIPMessage rawMessage remoteAddr =
     (let parts = go_splitn rawMessage ''RECEIVE:'' 2
      in if length parts \<noteq> 2 then Inl InvalidFormat
         else (let dataPart = parts ! 1;
                   flds = go_split dataPart CHR '';''
               in Inr (apply_fields (new_message remoteAddr) flds)))"

subsection \<open>Abstract specification\<close>

text \<open>A field is well formed when it holds exactly one colon; its pair is trimmed.\<close>

definition field_pair :: "go_string \<Rightarrow> (go_string \<times> go_string) option" where
  "field_pair field =
     (case go_split field CHR '':'' of
        [k, v] \<Rightarrow> Some (trim_space k, trim_space v)
      | _ \<Rightarrow> None)"

definition field_pairs :: "go_string list \<Rightarrow> (go_string \<times> go_string) list" where
  "field_pairs flds = List.map_filter field_pair flds"

definition last_value :: "(go_string \<times> go_string) list \<Rightarrow> go_string \<Rightarrow> go_string \<Rightarrow> go_string" where
  "last_value kvs key dflt = (case map_of (rev kvs) key of None \<Rightarrow> dflt | Some v \<Rightarrow> v)"

definition assign_pairs :: "GoIPMessage \<Rightarrow> (go_string \<times> go_string) list \<Rightarrow> GoIPMessage" where
  "assign_pairs message kvs =
     message\<lparr>ID := last_value kvs ''id'' (ID message),
             Password := last_value kvs ''password'' (Password message),
             SrcNum := last_value kvs ''srcnum'' (SrcNum message),
             Message := last_value kvs ''msg'' (Message message)\<rparr>"

definition receive_spec :: "go_string \<Rightarrow> udp_addr \<Rightarrow> GoIPMessage" where
  "receive_spec dataPart remoteAddr =
     assign_pairs (new_message remoteAddr) (field_pairs (go_split dataPart CHR '';''))"

definition recognised_key :: "go_string \<Rightarrow> bool" where
  "recognised_key key \<longleftrightarrow> key \<in> {''id'', ''password'', ''srcnum'', ''msg''}"

definition attr_clean :: "go_string \<Rightarrow> bool" where
  "attr_clean v \<longleftrightarrow> CHR '':'' \<notin> set v \<and> CHR '';'' \<notin> set v \<and>
     (\<forall>e \<in> set go_space_encodings. \<not> has_prefix v e \<and> \<not> has_suffix v e)"

text \<open>The GoIP wire format of a RECEIVE notification, as the device prints it (spec section 6).\<close>

definition render_receive :: "GoIPMessage \<Rightarrow> go_string" where
  "render_receive m =
     ''RECEIVE:'' @ go_join [''id:'' @ ID m, ''password:'' @ Password m,
                              ''srcnum:'' @ SrcNum m, ''msg:'' @ Message m] CHR '';''"

subsection \<open>Lemmas\<close>

lemma length_2_iff: "length xs = 2 \<longleftrightarrow> (\<exists>a b. xs = [a, b])"
  by (auto simp: numeral_2_eq_2 length_Suc_conv)

lemma apply_field_pair:
  "apply_field m f = (case field_pair f of None \<Rightarrow> m | Some (k, v) \<Rightarrow> set_field m k v)"
proof (cases "length (go_split f CHR '':'') = 2")
  case True
  then obtain k v where "go_split f CHR '':'' = [k, v]" by (auto simp: length_2_iff)
  then show ?thesis by (simp add: apply_field_def field_pair_def)
next
  case False
  then have "field_pair f = None"
    by (auto simp: field_pair_def split: list.split)
  with False show ?thesis by (simp add: apply_field_def)
qed

lemma last_value_Cons:
  "last_value ((k, v) # kvs) key d = last_value kvs key (if key = k then v else d)"
  by (auto simp: last_value_def map_add_def split: option.split)

lemma assign_pairs_Cons:
  "assign_pairs m ((k, v) # kvs) = assign_pairs (set_field m k v) kvs"
  unfolding set_field_def by (simp add: assign_pairs_def last_value_Cons)

lemma assign_pairs_Nil: "assign_pairs m [] = m"
  by (simp add: assign_pairs_def last_value_def)

lemma apply_fields_spec: "apply_fields m fs = assign_pairs m (field_pairs fs)"
proof (induction fs arbitrary: m)
  case Nil
  then show ?case by (simp add: assign_pairs_Nil field_pairs_def)
next
  case (Cons f fs)
  then show ?case
    by (cases "field_pair f")
       (auto simp: apply_field_pair field_pairs_def map_filter_simps assign_pairs_Cons)
qed


lemma map_of_unique_key:
  "count_list (map fst xs) k \<le> 1 \<Longrightarrow> (k, v) \<in> set xs \<Longrightarrow> (k, v') \<in> set xs \<Longrightarrow> v = v'"
proof (induction xs)
  case (Cons p xs)
  then show ?case
    by (cases p) (auto simp: count_list_0_iff image_iff split: if_splits)
qed simp

lemma map_of_perm_unique:
  assumes perm: "mset xs = mset ys" and uniq: "count_list (map fst xs) k \<le> 1"
  shows "map_of xs k = map_of ys k"
proof -
  from perm have sets: "set xs = set ys" by (rule mset_eq_setD)
  show ?thesis
  proof (cases "map_of xs k")
    case None
    then have "k \<notin> fst ` set ys" using sets by (simp add: map_of_eq_None_iff)
    then have "map_of ys k = None" by (simp add: map_of_eq_None_iff)
    with None show ?thesis by simp
  next
    case (Some v)
    then have xs_v: "(k, v) \<in> set xs" by (rule map_of_SomeD)
    then have "k \<in> fst ` set ys" using sets by force
    then obtain v' where ys_v': "map_of ys k = Some v'"
      by (cases "map_of ys k") (simp_all add: map_of_eq_None_iff)
    then have "(k, v') \<in> set xs" using sets by (simp add: map_of_SomeD)
    with uniq xs_v have "v = v'" by (rule map_of_unique_key)
    with Some ys_v' show ?thesis by simp
  qed
qed

lemma count_list_filter_distinct:
  "distinct (filter P xs) \<Longrightarrow> P k \<Longrightarrow> count_list xs k \<le> 1"
  by (induction xs) (auto simp: count_list_0_iff split: if_splits)

lemma mset_field_pairs:
  "mset fs = mset gs \<Longrightarrow> mset (field_pairs fs) = mset (field_pairs gs)"
  by (simp add: field_pairs_def List.map_filter_def)

lemma parse_characterisation:
  "parseGoIPMessage raw a =
     (case str_index raw ''RECEIVE:'' of
        None \<Rightarrow> Inl InvalidFormat
      | Some i \<Rightarrow> Inr (receive_spec (drop (i + length ''RECEIVE:'') raw) a))"
  by (simp add: parseGoIPMessage_def go_splitn_2 receive_spec_def apply_fields_spec
           split: option.split)

text \<open>C1: on a datagram that starts with RECEIVE: the parser never fails, and its result is the abstract specification: every recognised attribute is the trimmed value of the last well-formed field with that key, or empty, and the remote address is the caller's.\<close>

lemma parse_receive_refines:
  "parseGoIPMessage (''RECEIVE:'' @ d) a = Inr (receive_spec d a)"
proof -
  have "str_index (''RECEIVE:'' @ d) ''RECEIVE:'' = Some 0"
    by (rule str_index_has_prefix) (simp add: has_prefix_iff)
  then show ?thesis by (simp add: parse_characterisation)
qed

text \<open>C6: the parser fails, with its one error, exactly when the raw datagram does not contain the marker RECEIVE: anywhere.\<close>

lemma parse_fails_iff:
  "parseGoIPMessage raw a = Inl e \<longleftrightarrow> str_index raw ''RECEIVE:'' = None"
  by (cases e) (simp add: parse_characterisation split: option.split)

text \<open>C16: a field that does not contain exactly one colon is skipped: it leaves the message unchanged.\<close>

lemma apply_field_malformed:
  "count_list f CHR '':'' \<noteq> 1 \<Longrightarrow> apply_field m f = m"
  by (simp add: apply_field_def length_go_split)

lemma apply_field_malformed_witness:
  "count_list ''badfield'' CHR '':'' \<noteq> 1 \<and>
   apply_field (new_message ''a'') ''badfield'' = new_message ''a''"
  using apply_field_malformed [of "''badfield''" "new_message ''a''"] by simp

text \<open>C17: a well-formed field whose trimmed key is none of id, password, srcnum, msg is ignored.\<close>

lemma apply_field_unknown_key:
  "go_split f CHR '':'' = [k, v] \<Longrightarrow> \<not> recognised_key (trim_space k) \<Longrightarrow> apply_field m f = m"
  by (simp add: apply_field_def set_field_def recognised_key_def)

lemma apply_field_unknown_key_witness:
  "go_split ''foo:bar'' CHR '':'' = [''foo'', ''bar''] \<and>
   \<not> recognised_key (trim_space ''foo'') \<and>
   apply_field (new_message ''a'') ''foo:bar'' = new_message ''a''"
proof -
  have s: "go_split ''foo:bar'' CHR '':'' = [''foo'', ''bar'']" by (simp add: go_simps)
  have k: "\<not> recognised_key (trim_space ''foo'')" by (simp add: go_simps recognised_key_def)
  show ?thesis using apply_field_unknown_key [OF s k] s k by simp
qed

text \<open>C7: the order of the fields does not matter: two permutations of the same fields give the same message, provided no recognised key occurs twice among the well-formed fields.\<close>

theorem apply_fields_perm:
  assumes perm: "mset fs = mset gs"
    and uniq: "distinct (filter recognised_key (map fst (field_pairs fs)))"
  shows "apply_fields m fs = apply_fields m gs"
proof -
  have eq: "last_value (field_pairs fs) k d = last_value (field_pairs gs) k d"
    if "recognised_key k" for k d
  proof -
    have "count_list (map fst (rev (field_pairs fs))) k \<le> 1"
      using count_list_filter_distinct [OF uniq that] by (simp add: rev_map [symmetric])
    moreover have "mset (rev (field_pairs fs)) = mset (rev (field_pairs gs))"
      using mset_field_pairs [OF perm] by (simp only: mset_rev)
    ultimately have "map_of (rev (field_pairs fs)) k = map_of (rev (field_pairs gs)) k"
      by (intro map_of_perm_unique)
    then show ?thesis by (simp add: last_value_def)
  qed
  show ?thesis
    by (simp add: apply_fields_spec assign_pairs_def eq recognised_key_def)
qed


lemma apply_fields_perm_witness:
  "mset [''id:1'', ''msg:hi''] = mset [''msg:hi'', ''id:1''] \<and>
   distinct (filter recognised_key (map fst (field_pairs [''id:1'', ''msg:hi'']))) \<and>
   apply_fields (new_message ''a'') [''id:1'', ''msg:hi''] = apply_fields (new_message ''a'') [''msg:hi'', ''id:1'']"
proof -
  have p: "mset [''id:1'', ''msg:hi''] = mset [''msg:hi'', ''id:1'']" by (simp only: mset.simps add_mset_commute)
  have d: "distinct (filter recognised_key (map fst (field_pairs [''id:1'', ''msg:hi''])))"
    by (simp add: go_simps field_pairs_def field_pair_def recognised_key_def)
  show ?thesis using apply_fields_perm [OF p d] p d by simp
qed

lemma attr_clean_Nil: "attr_clean []"
  by (auto simp: attr_clean_def has_prefix_iff has_suffix_iff)

lemma map_filter_SomeD: "y \<in> set (List.map_filter f xs) \<Longrightarrow> \<exists>x \<in> set xs. f x = Some y"
  by (induction xs) (auto split: option.splits)

lemma field_pair_clean:
  assumes semi: "CHR '';'' \<notin> set f" and fp: "field_pair f = Some (k, v)"
  shows "attr_clean v"
proof -
  obtain a b where split: "go_split f CHR '':'' = [a, b]" and v: "v = trim_space b"
    using fp by (auto simp: field_pair_def split: list.splits)
  have "CHR '':'' \<notin> set b" using split go_split_sep_free [of b f] by simp
  moreover have "f = a @ CHR '':'' # b"
    using go_split_join [of f "CHR '':''"] split by simp
  then have "CHR '';'' \<notin> set b" using semi by auto
  moreover obtain p q where "b = p @ trim_space b @ q"
    using trim_space_infix by blast
  ultimately have "CHR '':'' \<notin> set v" and "CHR '';'' \<notin> set v"
    using v by (metis Un_iff set_append)+
  then show ?thesis
    using trim_space_clean [of _ b] v by (simp add: attr_clean_def)
qed

lemma last_value_clean:
  "\<forall>p \<in> set kvs. attr_clean (snd p) \<Longrightarrow> attr_clean d \<Longrightarrow> attr_clean (last_value kvs key d)"
  by (auto simp: last_value_def split: option.split dest!: map_of_SomeD) force

lemma receive_spec_clean:
  assumes "m = receive_spec dataPart a"
  shows "attr_clean (ID m) \<and> attr_clean (Password m) \<and> attr_clean (SrcNum m) \<and>
         attr_clean (Message m) \<and> RemoteAddr m = a"
proof -
  let ?kvs = "field_pairs (go_split dataPart CHR '';'')"
  have "\<forall>p \<in> set ?kvs. attr_clean (snd p)"
  proof
    fix p assume "p \<in> set ?kvs"
    then obtain f where f: "f \<in> set (go_split dataPart CHR '';'')" and fp: "field_pair f = Some p"
      by (auto simp: field_pairs_def dest: map_filter_SomeD)
    from f have "CHR '';'' \<notin> set f" by (rule go_split_sep_free)
    with fp show "attr_clean (snd p)" by (cases p) (simp add: field_pair_clean)
  qed
  then show ?thesis
    using assms by (simp add: receive_spec_def assign_pairs_def new_message_def
                              last_value_clean attr_clean_Nil)
qed

lemma attr_clean_trim: "attr_clean v \<Longrightarrow> trim_space v = v"
proof -
  assume c: "attr_clean v"
  then have "find (has_prefix v) go_space_encodings = None"
    by (auto simp: attr_clean_def find_None_iff)
  then have l: "trim_left_space v = v" by (rule trim_left_space_id)
  from c have "find (has_suffix v) go_space_encodings = None"
    by (auto simp: attr_clean_def find_None_iff)
  then have "trim_right_space v = v" by (rule trim_right_space_id)
  with l show ?thesis by (simp add: trim_space_def)
qed

lemma field_pair_key:
  "attr_clean v \<Longrightarrow> CHR '':'' \<notin> set k \<Longrightarrow> trim_space k = k \<Longrightarrow>
   field_pair (k @ CHR '':'' # v) = Some (k, v)"
  by (simp add: field_pair_def go_split_append_sep go_split_no_sep attr_clean_def attr_clean_trim)

text \<open>C18: every attribute the parser returns is trimmed of white space at both ends and contains neither a colon nor a semicolon (so an SMS text with a colon is never delivered), and the remote address is the one the caller passed.\<close>

theorem parse_attrs_clean:
  assumes "parseGoIPMessage raw a = Inr m"
  shows "attr_clean (ID m) \<and> attr_clean (Password m) \<and> attr_clean (SrcNum m) \<and>
         attr_clean (Message m) \<and> RemoteAddr m = a"
proof -
  from assms obtain i where "m = receive_spec (drop (i + length ''RECEIVE:'') raw) a"
    by (auto simp: parse_characterisation split: option.splits)
  then show ?thesis by (rule receive_spec_clean)
qed

lemma parse_attrs_clean_witness:
  "parseGoIPMessage ''RECEIVE:id: 42 ;msg:Hi'' ''1.2.3.4:5000'' =
     Inr \<lparr>ID = ''42'', Password = [], SrcNum = [], Message = ''Hi'', RemoteAddr = ''1.2.3.4:5000''\<rparr> \<and>
   attr_clean ''42'' \<and> attr_clean [] \<and> attr_clean [] \<and> attr_clean ''Hi'' \<and> ''1.2.3.4:5000'' = ''1.2.3.4:5000''"
proof -
  have p: "parseGoIPMessage ''RECEIVE:id: 42 ;msg:Hi'' ''1.2.3.4:5000'' =
     Inr \<lparr>ID = ''42'', Password = [], SrcNum = [], Message = ''Hi'', RemoteAddr = ''1.2.3.4:5000''\<rparr>"
    by (simp add: parseGoIPMessage_def go_simps new_message_def set_field_def apply_field_def)
  show ?thesis using parse_attrs_clean [OF p] p by simp
qed

lemma parse_render_clean:
  assumes "attr_clean (ID m)" "attr_clean (Password m)" "attr_clean (SrcNum m)" "attr_clean (Message m)"
  shows "parseGoIPMessage (render_receive m) a = Inr (m\<lparr>RemoteAddr := a\<rparr>)"
proof -
  let ?fs = "[''id:'' @ ID m, ''password:'' @ Password m, ''srcnum:'' @ SrcNum m, ''msg:'' @ Message m]"
  have split: "go_split (go_join ?fs CHR '';'') CHR '';'' = ?fs"
    using assms by (intro go_join_split) (auto simp: attr_clean_def)
  have k: "trim_space ''id'' = ''id''" "trim_space ''password'' = ''password''"
       "trim_space ''srcnum'' = ''srcnum''" "trim_space ''msg'' = ''msg''"
    by (simp_all add: go_simps)
  have "field_pair (''id:'' @ ID m) = Some (''id'', ID m)"
    using field_pair_key [OF assms(1), of "''id''"] k by simp
  moreover have "field_pair (''password:'' @ Password m) = Some (''password'', Password m)"
    using field_pair_key [OF assms(2), of "''password''"] k by simp
  moreover have "field_pair (''srcnum:'' @ SrcNum m) = Some (''srcnum'', SrcNum m)"
    using field_pair_key [OF assms(3), of "''srcnum''"] k by simp
  moreover have "field_pair (''msg:'' @ Message m) = Some (''msg'', Message m)"
    using field_pair_key [OF assms(4), of "''msg''"] k by simp
  ultimately have fp: "field_pairs ?fs = [(''id'', ID m), (''password'', Password m), (''srcnum'', SrcNum m), (''msg'', Message m)]"
    by (simp only: field_pairs_def map_filter_simps option.case)
  have "receive_spec (go_join ?fs CHR '';'') a = m\<lparr>RemoteAddr := a\<rparr>"
    unfolding receive_spec_def split fp
    by (simp add: assign_pairs_Cons assign_pairs_Nil set_field_def new_message_def)
  moreover have "str_index (render_receive m) ''RECEIVE:'' = Some 0"
    by (rule str_index_has_prefix) (simp add: render_receive_def)
  ultimately show ?thesis
    by (simp add: parse_characterisation render_receive_def)
qed

text \<open>C20: printing a message in the GoIP wire format RECEIVE:id:..;password:..;srcnum:..;msg:.. and parsing it gives the message back, with the caller's address, whenever each attribute is trimmed and free of the two delimiters (the attributes the parser itself produces, C11).\<close>

theorem render_receive_parse:
  assumes "attr_clean (ID m)" "attr_clean (Password m)" "attr_clean (SrcNum m)" "attr_clean (Message m)"
  shows "parseGoIPMessage (render_receive m) a = Inr (m\<lparr>RemoteAddr := a\<rparr>)"
  using assms by (rule parse_render_clean)

theorem render_receive_parse_witness:
  "attr_clean ''42'' \<and> attr_clean ''secret'' \<and> attr_clean ''15551234567'' \<and> attr_clean ''Hello World'' \<and>
   parseGoIPMessage
     (render_receive \<lparr>ID = ''42'', Password = ''secret'', SrcNum = ''15551234567'',
                      Message = ''Hello World'', RemoteAddr = []\<rparr>) ''1.2.3.4:5000'' =
   Inr \<lparr>ID = ''42'', Password = ''secret'', SrcNum = ''15551234567'',
        Message = ''Hello World'', RemoteAddr = ''1.2.3.4:5000''\<rparr>"
proof -
  have c: "attr_clean ''42''" "attr_clean ''secret''" "attr_clean ''15551234567''" "attr_clean ''Hello World''"
    by (simp_all add: attr_clean_def go_simps has_prefix_iff)
  show ?thesis
    using render_receive_parse [of "\<lparr>ID = ''42'', Password = ''secret'', SrcNum = ''15551234567'',
                      Message = ''Hello World'', RemoteAddr = []\<rparr>" "''1.2.3.4:5000''"] c by simp
qed


text \<open>C14: parsing is idempotent (spec property 8.1): printing a parsed message in the GoIP wire format and parsing it again, with the same sender, gives the same message.\<close>

theorem parse_idempotent:
  assumes "parseGoIPMessage raw a = Inr m"
  shows "parseGoIPMessage (render_receive m) a = Inr m"
proof -
  from assms obtain i where "m = receive_spec (drop (i + length ''RECEIVE:'') raw) a"
    by (auto simp: parse_characterisation split: option.splits)
  then have clean: "attr_clean (ID m) \<and> attr_clean (Password m) \<and> attr_clean (SrcNum m) \<and>
    attr_clean (Message m) \<and> RemoteAddr m = a"
    by (rule receive_spec_clean)
  then have "parseGoIPMessage (render_receive m) a = Inr (m\<lparr>RemoteAddr := a\<rparr>)"
    using parse_render_clean [of m a] by blast
  moreover have "m\<lparr>RemoteAddr := a\<rparr> = m"
    using clean by simp
  ultimately show ?thesis by simp
qed

theorem parse_idempotent_witness:
  "parseGoIPMessage ''RECEIVE:id: 42 ;msg:Hi'' ''1.2.3.4:5000'' =
     Inr \<lparr>ID = ''42'', Password = [], SrcNum = [], Message = ''Hi'', RemoteAddr = ''1.2.3.4:5000''\<rparr> \<and>
   parseGoIPMessage
     (render_receive \<lparr>ID = ''42'', Password = [], SrcNum = [], Message = ''Hi'', RemoteAddr = ''1.2.3.4:5000''\<rparr>)
     ''1.2.3.4:5000'' =
     Inr \<lparr>ID = ''42'', Password = [], SrcNum = [], Message = ''Hi'', RemoteAddr = ''1.2.3.4:5000''\<rparr>"
proof -
  have p: "parseGoIPMessage ''RECEIVE:id: 42 ;msg:Hi'' ''1.2.3.4:5000'' =
     Inr \<lparr>ID = ''42'', Password = [], SrcNum = [], Message = ''Hi'', RemoteAddr = ''1.2.3.4:5000''\<rparr>"
    by (simp add: parseGoIPMessage_def go_simps new_message_def set_field_def apply_field_def)
  show ?thesis using p parse_idempotent [OF p] by (rule conjI)
qed

end
