(* ===== verification/Go_CSV.thy ===== *)
theory Go_CSV
  imports Go_Strings
begin

text \<open>
  One call of \<open>Read\<close> on Go's \<open>encoding/csv\<close> reader, as the keep-alive branch of
  \<open>src/main.go\<close> (lines 73--75) uses it: \<open>Comma = ';'\<close>, no comment character,
  \<open>LazyQuotes\<close> and \<open>TrimLeadingSpace\<close> off.  The package is not part of the
  repository; the model follows the reader's documented behaviour:
  \<^item> lines end at LF; \<open>CR LF\<close> at a line end reads as LF, and a CR ending the
    input is dropped (\<open>csv_norm\<close>);
  \<^item> empty lines before the record are skipped; no non-empty line is \<open>io.EOF\<close>;
  \<^item> an unquoted field runs to the next comma or line end and may not contain a
    quote (\<open>ErrBareQuote\<close>);
  \<^item> a field that starts with a quote runs to the closing quote, across line ends;
    a doubled quote inside is one quote; the closing quote must be followed by a
    comma, a line end or the end of input (\<open>ErrQuote\<close> otherwise), and a quote
    that is never closed is \<open>ErrQuote\<close>.
  Normalising CR LF on the whole input is the same as on each line, because LF
  ends every line.

  The lemmas show that on input without quotes and line breaks the reader is
  the loop of \<open>strings.Split(s, ";")\<close> (the case the spec says the device always
  sends), how a field quoted with the writer's rule reads back, that an
  unterminated quote is an error, and that the fields are never longer in total
  than the input; the keep-alive theory states them for the program's input.
\<close>

subsection \<open>Reader\<close>

datatype csv_error = ErrBareQuote | ErrQuote | ErrEOF

fun csv_norm :: "go_string \<Rightarrow> go_string" where
  "csv_norm [] = []"
| "csv_norm [c] = (if c = CR then [] else [c])"
| "csv_norm (c # d # cs) =
     (if c = CR \<and> d = LF then csv_norm (d # cs) else c # csv_norm (d # cs))"

text \<open>
  \<open>csv_field\<close> is the head of the \<open>parseField\<close> loop of \<open>readRecord\<close>,
  \<open>csv_unq\<close> reads a non-quoted field and \<open>csv_quoted\<close> a quoted one; the
  accumulator is the field read so far.
\<close>

fun csv_field :: "go_string \<Rightarrow> csv_error + go_string list"
and csv_unq :: "go_string \<Rightarrow> go_string \<Rightarrow> csv_error + go_string list"
and csv_quoted :: "go_string \<Rightarrow> go_string \<Rightarrow> csv_error + go_string list" where
  "csv_field s = (case s of c # r \<Rightarrow> if c = DQUOTE then csv_quoted [] r else csv_unq [] s
                           | [] \<Rightarrow> csv_unq [] [])"
| "csv_unq acc [] = Inr [acc]"
| "csv_unq acc (c # r) =
     (if c = CHR '';'' then map_sum id (Cons acc) (csv_field r)
      else if c = LF then Inr [acc]
      else if c = DQUOTE then Inl ErrBareQuote
      else csv_unq (acc @ [c]) r)"
| "csv_quoted acc [] = Inl ErrQuote"
| "csv_quoted acc (c # r) =
     (if c = DQUOTE then
        (case r of
           [] \<Rightarrow> Inr [acc]
         | d # r' \<Rightarrow>
             if d = DQUOTE then csv_quoted (acc @ [DQUOTE]) r'
             else if d = CHR '';'' then map_sum id (Cons acc) (csv_field r')
             else if d = LF then Inr [acc]
             else Inl ErrQuote)
      else csv_quoted (acc @ [c]) r)"

declare csv_field.simps [simp del]

definition csv_read :: "go_string \<Rightarrow> csv_error + go_string list" where
  "csv_read s =
     (let t = dropWhile (\<lambda>c. c = LF) (csv_norm s)
      in if t = [] then Inl ErrEOF else csv_field t)"

text \<open>The writer's quoting of one field (\<open>csv.Writer\<close>), used to state the round trip.\<close>

definition csv_quote :: "go_string \<Rightarrow> go_string" where
  "csv_quote f = DQUOTE # concat (map (\<lambda>c. if c = DQUOTE then [DQUOTE, DQUOTE] else [c]) f) @ [DQUOTE]"

subsection \<open>Lemmas\<close>

lemma csv_field_Nil [simp]: "csv_field [] = Inr [[]]"
  by (simp add: csv_field.simps)

lemma csv_field_Cons [simp]:
  "csv_field (c # r) = (if c = DQUOTE then csv_quoted [] r else csv_unq [] (c # r))"
  by (simp add: csv_field.simps)

lemma csv_field_unquoted:
  "(s = [] \<or> hd s \<noteq> DQUOTE) \<Longrightarrow> csv_field s = csv_unq [] s"
  by (cases s) auto

lemma csv_unq_plain:
  "DQUOTE \<notin> set s \<Longrightarrow> LF \<notin> set s \<Longrightarrow> csv_unq acc s = Inr (split_acc CHR '';'' acc s)"
proof (induction s arbitrary: acc)
  case Nil
  then show ?case by simp
next
  case (Cons c r)
  have r: "csv_field r = csv_unq [] r"
    using Cons.prems by (intro csv_field_unquoted) (cases r, auto)
  show ?case
    using Cons by (auto simp: r simp del: csv_field_Cons)
qed

lemma csv_norm_no_CR: "CR \<notin> set s \<Longrightarrow> csv_norm s = s"
  by (induction s rule: csv_norm.induct) auto

lemma csv_read_unquoted:
  assumes "s \<noteq> []" and "DQUOTE \<notin> set s" and "LF \<notin> set s" and "CR \<notin> set s"
  shows "csv_read s = csv_unq [] s"
proof -
  have "dropWhile (\<lambda>c. c = LF) (csv_norm s) = s"
    using assms by (cases s) (auto simp: csv_norm_no_CR)
  moreover have "csv_field s = csv_unq [] s"
    using assms by (intro csv_field_unquoted) (cases s, auto)
  ultimately show ?thesis
    using assms by (simp add: csv_read_def)
qed

lemma csv_quoted_escape:
  "csv_quoted acc (concat (map (\<lambda>c. if c = DQUOTE then [DQUOTE, DQUOTE] else [c]) f) @ DQUOTE # r) =
   csv_quoted (acc @ f) (DQUOTE # r)"
proof (induction f arbitrary: acc)
  case Nil
  then show ?case by simp
next
  case (Cons c f)
  let ?g = "\<lambda>c. if c = DQUOTE then [DQUOTE, DQUOTE] else [c]"
  have step: "csv_quoted acc (concat (map ?g (c # f)) @ DQUOTE # r) =
              csv_quoted (acc @ [c]) (concat (map ?g f) @ DQUOTE # r)"
    by (cases "c = DQUOTE") simp_all
  also have "\<dots> = csv_quoted ((acc @ [c]) @ f) (DQUOTE # r)"
    by (rule Cons.IH)
  finally show ?case by (simp del: csv_quoted.simps)
qed

lemma csv_unterminated_quote:
  "DQUOTE \<notin> set t \<Longrightarrow> csv_field (DQUOTE # t) = Inl ErrQuote"
proof -
  assume "DQUOTE \<notin> set t"
  moreover have "DQUOTE \<notin> set t \<Longrightarrow> csv_quoted acc t = Inl ErrQuote" for acc
    by (induction t arbitrary: acc) auto
  ultimately show ?thesis by simp
qed

lemma csv_lengths:
  "csv_field s = Inr fs \<Longrightarrow> sum_list (map length fs) \<le> length s"
  "csv_unq acc s' = Inr gs \<Longrightarrow> sum_list (map length gs) \<le> length acc + length s'"
  "csv_quoted acc' s'' = Inr hs \<Longrightarrow> sum_list (map length hs) \<le> length acc' + length s''"
proof (induction s and acc s' and acc' s'' arbitrary: fs and gs and hs
       rule: csv_field_csv_unq_csv_quoted.induct)
  case (1 s)
  show ?case
  proof (cases s)
    case Nil
    with "1.prems" show ?thesis by auto
  next
    case (Cons c r)
    show ?thesis
    proof (cases "c = DQUOTE")
      case True
      with "1.prems" Cons have "csv_quoted [] r = Inr fs" by simp
      with "1.IH"(2) [OF Cons True] Cons show ?thesis by simp
    next
      case False
      with "1.prems" Cons have "csv_unq [] s = Inr fs" by simp
      with "1.IH"(3) [OF Cons False] show ?thesis by simp
    qed
  qed
next
  case (2 acc)
  then show ?case by auto
next
  case (3 acc c r)
  then show ?case by (fastforce split: if_splits)
next
  case (4 acc)
  then show ?case by simp
next
  case (5 acc c r)
  then show ?case by (fastforce split: if_splits list.splits)
qed

lemma length_csv_norm: "length (csv_norm s) \<le> length s"
  by (induction s rule: csv_norm.induct) auto

lemma csv_read_lengths: "csv_read s = Inr fs \<Longrightarrow> sum_list (map length fs) \<le> length s"
proof -
  assume r: "csv_read s = Inr fs"
  let ?t = "dropWhile (\<lambda>c. c = LF) (csv_norm s)"
  from r have "csv_field ?t = Inr fs" by (simp add: csv_read_def Let_def split: if_splits)
  then have "sum_list (map length fs) \<le> length ?t" by (rule csv_lengths(1))
  also have "\<dots> \<le> length (csv_norm s)" by (rule length_dropWhile_le)
  also have "\<dots> \<le> length s" by (rule length_csv_norm)
  finally show ?thesis .
qed

text \<open>An unquoted line ends the record: what follows the first line break is never read.\<close>

lemma csv_unq_first_line:
  "DQUOTE \<notin> set s \<Longrightarrow> LF \<notin> set s \<Longrightarrow> csv_unq acc (s @ LF # r) = csv_unq acc s"
proof (induction s arbitrary: acc)
  case Nil
  then show ?case by simp
next
  case (Cons c s)
  note IH = Cons.IH and prems = Cons.prems
  show ?case
  proof (cases "c = CHR '';''")
    case True
    have "csv_field (s @ LF # r) = csv_field s"
    proof (cases s)
      case Nil
      then show ?thesis by simp
    next
      case (Cons c' s')
      with prems have "c' \<noteq> DQUOTE" by auto
      with IH [of "[]"] prems Cons show ?thesis by simp
    qed
    with True prems show ?thesis by simp
  next
    case False
    with prems IH show ?thesis by simp
  qed
qed


end
