(* ===== verification/GoIP_KeepAlive.thy ===== *)
theory GoIP_KeepAlive
  imports Go_CSV
begin

text \<open>
  The keep-alive branch of the receive loop of \<open>src/main.go\<close> (lines 70--82):
  every \<open>:\<close> of the datagram becomes \<open>;\<close>, one CSV record is read with
  \<open>Comma = ';'\<close>, and the acknowledgement \<open>reg:<field 1>;status:200;\<close> is formatted
  from the record's second field.  \<open>messageArray[1]\<close> on a record of fewer than
  two fields is a Go index-out-of-range panic, which the model makes an outcome
  of its own; sending the reply is left to the server theory.

  The lemmas show what the responder answers to the datagrams the device sends
  (no quotes, no line breaks), that it panics exactly when the record has fewer
  than two fields, in particular on every such datagram without a separator,
  what it answers to quoted and malformed quoted fields, that only the first
  line of a datagram is read, and that a reply is never longer than the
  datagram plus the fixed frame.
\<close>

subsection \<open>Operations\<close>

definition keepalive_csv_message :: "go_string \<Rightarrow> go_string" where
  "keepalive_csv_message message = replace_all message CHR '':'' CHR '';''"

definition format_response :: "go_string \<Rightarrow> go_string" where
  "format_response field = ''reg:'' @ field @ '';status:200;''"

datatype keepalive_outcome =
    CsvError csv_error
  | IndexPanic
  | Reply go_string

definition keepalive_reply :: "go_string \<Rightarrow> keepalive_outcome" where
  "keepalive_reply message =
     (case csv_read (keepalive_csv_message message) of
        Inl err \<Rightarrow> CsvError err
      | Inr messageArray \<Rightarrow>
          if 1 < length messageArray then Reply (format_response (messageArray ! 1))
          else IndexPanic)"

subsection \<open>Lemmas\<close>

lemma keepalive_csv_message_set:
  "set (keepalive_csv_message m) \<subseteq> set m - {CHR '':''} \<union> {CHR '';''}"
  by (auto simp: keepalive_csv_message_def replace_all_def)

lemma length_keepalive_csv_message [simp]:
  "length (keepalive_csv_message m) = length m"
  by (simp add: keepalive_csv_message_def replace_all_def)

lemma count_keepalive_csv_message:
  "count_list (keepalive_csv_message m) CHR '';'' =
   count_list m CHR '':'' + count_list m CHR '';''"
  by (induction m) (auto simp: keepalive_csv_message_def replace_all_def)

lemma keepalive_plain_read:
  assumes "m \<noteq> []" and "DQUOTE \<notin> set m" and "LF \<notin> set m" and "CR \<notin> set m"
  shows "csv_read (keepalive_csv_message m) = Inr (go_split (keepalive_csv_message m) CHR '';'')"
proof -
  have "keepalive_csv_message m \<noteq> []" using assms(1) by (simp add: keepalive_csv_message_def replace_all_def)
  moreover have "DQUOTE \<notin> set (keepalive_csv_message m)" using assms(2) keepalive_csv_message_set by blast
  moreover have "LF \<notin> set (keepalive_csv_message m)" using assms(3) keepalive_csv_message_set by blast
  moreover have "CR \<notin> set (keepalive_csv_message m)" using assms(4) keepalive_csv_message_set by blast
  ultimately show ?thesis by (simp add: csv_read_unquoted go_split_def csv_unq_plain)
qed

text \<open>C5: for a keep-alive datagram as the device sends it (non-empty, no quotes, no line breaks) that holds a colon or semicolon, the responder replies reg:<v>;status:200; where v is the second field of the datagram split at ; after every : became ;.\<close>

theorem keepalive_reply_plain:
  assumes "m \<noteq> []" and "DQUOTE \<notin> set m" and "LF \<notin> set m" and "CR \<notin> set m"
    and "CHR '':'' \<in> set m \<or> CHR '';'' \<in> set m"
  shows "keepalive_reply m = Reply (format_response (go_split (keepalive_csv_message m) CHR '';'' ! 1))"
proof -
  have "count_list m CHR '':'' \<noteq> 0 \<or> count_list m CHR '';'' \<noteq> 0"
    using assms(5) by (simp add: count_list_0_iff)
  then have "0 < count_list m CHR '':'' + count_list m CHR '';''" by auto
  then have "1 < length (go_split (keepalive_csv_message m) CHR '';'')"
    by (simp add: length_go_split count_keepalive_csv_message)
  then show ?thesis
    using keepalive_plain_read [OF assms(1-4)] by (simp add: keepalive_reply_def)
qed

theorem keepalive_reply_plain_witness:
  "''req:42:online'' \<noteq> [] \<and> DQUOTE \<notin> set ''req:42:online'' \<and> LF \<notin> set ''req:42:online'' \<and>
   CR \<notin> set ''req:42:online'' \<and> (CHR '':'' \<in> set ''req:42:online'' \<or> CHR '';'' \<in> set ''req:42:online'') \<and>
   keepalive_reply ''req:42:online'' = Reply ''reg:42;status:200;''"
proof -
  have "go_split (keepalive_csv_message ''req:42:online'') CHR '';'' ! 1 = ''42''"
    by (simp add: keepalive_csv_message_def go_simps)
  then show ?thesis
    using keepalive_reply_plain [of "''req:42:online''"] by (simp add: format_response_def)
qed

lemma keepalive_reply_scenario:
  "keepalive_reply ''req:42:online'' = Reply ''reg:42;status:200;''"
  by (simp add: keepalive_reply_def csv_read_def keepalive_csv_message_def format_response_def go_simps)

text \<open>C27: the responder panics (index out of range on messageArray[1]) exactly when the CSV record it reads has fewer than two fields.\<close>

theorem keepalive_panic_iff:
  "keepalive_reply m = IndexPanic \<longleftrightarrow>
   (\<exists>fs. csv_read (keepalive_csv_message m) = Inr fs \<and> length fs < 2)"
  by (auto simp: keepalive_reply_def split: sum.split)

text \<open>C28: a keep-alive datagram without quotes, line breaks, colons and semicolons (for instance req) makes the responder panic instead of reporting a format error.\<close>

theorem keepalive_no_separator_panics:
  assumes "m \<noteq> []" and "DQUOTE \<notin> set m" and "LF \<notin> set m" and "CR \<notin> set m"
    and "CHR '':'' \<notin> set m" and "CHR '';'' \<notin> set m"
  shows "keepalive_reply m = IndexPanic"
proof -
  have "count_list m CHR '':'' + count_list m CHR '';'' = 0"
    using assms(5,6) by (simp add: count_list_0_iff)
  then have "length (go_split (keepalive_csv_message m) CHR '';'') = 1"
    by (simp add: length_go_split count_keepalive_csv_message)
  then show ?thesis
    using keepalive_plain_read [OF assms(1-4)] by (simp add: keepalive_reply_def)
qed

theorem keepalive_no_separator_panics_witness:
  "''req'' \<noteq> [] \<and> DQUOTE \<notin> set ''req'' \<and> LF \<notin> set ''req'' \<and> CR \<notin> set ''req'' \<and>
   CHR '':'' \<notin> set ''req'' \<and> CHR '';'' \<notin> set ''req'' \<and> keepalive_reply ''req'' = IndexPanic"
  using keepalive_no_separator_panics [of "''req''"] by simp

lemma keepalive_reply_length:
  "keepalive_reply m = Reply r \<Longrightarrow> \<exists>f. r = format_response f \<and> length f \<le> length m"
proof -
  assume reply: "keepalive_reply m = Reply r"
  then obtain fs where read: "csv_read (keepalive_csv_message m) = Inr fs"
    and two: "1 < length fs" and r: "r = format_response (fs ! 1)"
    by (auto simp: keepalive_reply_def split: sum.splits if_splits)
  have "length (fs ! 1) \<le> sum_list (map length fs)"
    using two by (intro member_le_sum_list) auto
  also have "\<dots> \<le> length m"
    using csv_read_lengths [OF read] by simp
  finally show ?thesis using r by blast
qed

lemma csv_norm_append: "CR \<notin> set a \<Longrightarrow> csv_norm (a @ b) = a @ csv_norm b"
proof (induction a)
  case (Cons c a)
  then show ?case by (cases a; cases b) auto
qed simp

lemma csv_norm_Cons: "c \<noteq> CR \<Longrightarrow> csv_norm (c # x) = c # csv_norm x"
  by (cases x) auto

lemma keepalive_csv_message_append:
  "keepalive_csv_message (a @ b) = keepalive_csv_message a @ keepalive_csv_message b"
  by (simp add: keepalive_csv_message_def replace_all_def)

lemma keepalive_csv_message_no_colon:
  "CHR '':'' \<notin> set f \<Longrightarrow> keepalive_csv_message f = f"
  by (induction f) (auto simp: keepalive_csv_message_def replace_all_def)

text \<open>C4: for a keep-alive datagram without quotes and line breaks, the CSV decoder the code uses returns exactly strings.Split of the datagram (after every : became ;) at ;, one field more than the datagram has separators: the decoder agrees with the plain split the spec allows.\<close>

theorem keepalive_fields_plain:
  assumes "m \<noteq> []" and "DQUOTE \<notin> set m" and "LF \<notin> set m" and "CR \<notin> set m"
  shows "csv_read (keepalive_csv_message m) = Inr (go_split (replace_all m CHR '':'' CHR '';'') CHR '';'') \<and>
         length (go_split (replace_all m CHR '':'' CHR '';'') CHR '';'') =
           1 + count_list m CHR '':'' + count_list m CHR '';''"
  using keepalive_plain_read [OF assms] count_keepalive_csv_message [of m]
  by (simp add: keepalive_csv_message_def length_go_split)

theorem keepalive_fields_plain_witness:
  "''req:42:online'' \<noteq> [] \<and> DQUOTE \<notin> set ''req:42:online'' \<and> LF \<notin> set ''req:42:online'' \<and>
   CR \<notin> set ''req:42:online'' \<and>
   csv_read (keepalive_csv_message ''req:42:online'') = Inr [''req'', ''42'', ''online''] \<and>
   length [''req'', ''42'', ''online''] = 1 + count_list ''req:42:online'' CHR '':'' + count_list ''req:42:online'' CHR '';''"
proof -
  have "go_split (replace_all ''req:42:online'' CHR '':'' CHR '';'') CHR '';'' = [''req'', ''42'', ''online'']"
    by (simp add: go_simps)
  then show ?thesis using keepalive_fields_plain [of "''req:42:online''"] by simp
qed

text \<open>C30: a keep-alive datagram whose second field opens a quote that is never closed gets no reply: the CSV read fails with the quote error, which the loop logs.\<close>

theorem keepalive_unterminated_quote:
  assumes "DQUOTE \<notin> set t" and "CR \<notin> set t"
  shows "keepalive_reply (''req:'' @ DQUOTE # t) = CsvError ErrQuote"
proof -
  let ?t = "keepalive_csv_message t"
  have msg: "keepalive_csv_message (''req:'' @ DQUOTE # t) = ''req;'' @ DQUOTE # ?t"
    by (simp add: keepalive_csv_message_def replace_all_def)
  have "DQUOTE \<notin> set ?t" and "CR \<notin> set ?t"
    using assms keepalive_csv_message_set by blast+
  then have q: "csv_quoted [] ?t = Inl ErrQuote"
    and n: "csv_norm (''req;'' @ DQUOTE # ?t) = ''req;'' @ DQUOTE # ?t"
    using csv_unterminated_quote [of ?t] by (simp_all add: csv_norm_no_CR)
  have "csv_read (''req;'' @ DQUOTE # ?t) = Inl ErrQuote"
    using q \<open>CR \<notin> set ?t\<close> by (simp add: csv_read_def csv_norm_Cons csv_norm_no_CR)
  then show ?thesis unfolding keepalive_reply_def msg by simp
qed

theorem keepalive_unterminated_quote_witness:
  "DQUOTE \<notin> set ''42'' \<and> CR \<notin> set ''42'' \<and> keepalive_reply (''req:'' @ DQUOTE # ''42'') = CsvError ErrQuote"
  using keepalive_unterminated_quote [of "''42''"] by simp

text \<open>C31: a quote inside the first field of a keep-alive datagram makes the CSV read fail with the bare-quote error: no reply is sent.\<close>

theorem keepalive_bare_quote:
  "keepalive_reply (''req'' @ DQUOTE # t) = CsvError ErrBareQuote"
proof -
  let ?t = "keepalive_csv_message t"
  have msg: "keepalive_csv_message (''req'' @ DQUOTE # t) = ''req'' @ DQUOTE # ?t"
    by (simp add: keepalive_csv_message_def replace_all_def)
  have n: "csv_norm (''req'' @ DQUOTE # ?t) = ''req'' @ DQUOTE # csv_norm ?t"
    using csv_norm_append [of "''req'' @ [DQUOTE]" ?t] by simp
  have "csv_read (''req'' @ DQUOTE # ?t) = Inl ErrBareQuote"
    by (simp add: csv_read_def csv_norm_Cons)
  then show ?thesis unfolding keepalive_reply_def msg by simp
qed

text \<open>C29: a keep-alive datagram whose second field is quoted by the CSV writer rule is answered with that field verbatim, semicolons included.\<close>

theorem keepalive_quoted_roundtrip:
  assumes "CHR '':'' \<notin> set f" and "CR \<notin> set f"
  shows "keepalive_reply (''req;'' @ csv_quote f) = Reply (format_response f)"
proof -
  have nc: "CHR '':'' \<notin> set (csv_quote f)" and ncr: "CR \<notin> set (csv_quote f)"
    using assms by (auto simp: csv_quote_def)
  then have "keepalive_csv_message (''req;'' @ csv_quote f) = ''req;'' @ csv_quote f"
    by (simp add: keepalive_csv_message_no_colon)
  moreover have "csv_norm (''req;'' @ csv_quote f) = ''req;'' @ csv_quote f"
    using ncr by (simp add: csv_norm_no_CR)
  moreover have "csv_field (csv_quote f) = Inr [f]"
    by (simp add: csv_quote_def csv_quoted_escape)
  ultimately show ?thesis
    by (simp add: keepalive_reply_def csv_read_def csv_quote_def)
qed

theorem keepalive_quoted_roundtrip_witness:
  "CHR '':'' \<notin> set ''4;2'' \<and> CR \<notin> set ''4;2'' \<and>
   keepalive_reply (''req;'' @ csv_quote ''4;2'') = Reply ''reg:4;2;status:200;''"
  using keepalive_quoted_roundtrip [of "''4;2''"] by (simp add: format_response_def)

text \<open>C13: the CSV reader returns only the first record: a keep-alive datagram whose first line has no quote and no CR is answered as if the datagram ended at its first line break, whatever follows it.\<close>

theorem keepalive_first_record:
  assumes "line \<noteq> []" and "DQUOTE \<notin> set line" and "LF \<notin> set line" and "CR \<notin> set line"
  shows "keepalive_reply (line @ LF # rest) = keepalive_reply line"
proof -
  let ?l = "keepalive_csv_message line" and ?r = "keepalive_csv_message rest"
  have l: "?l \<noteq> []" "DQUOTE \<notin> set ?l" "LF \<notin> set ?l" "CR \<notin> set ?l"
    using assms keepalive_csv_message_set [of line]
    by (auto simp: keepalive_csv_message_def replace_all_def)
  have hd: "hd ?l \<noteq> DQUOTE" "hd ?l \<noteq> LF"
    using hd_in_set [OF l(1)] l(2,3) by auto
  have msg: "keepalive_csv_message (line @ LF # rest) = ?l @ LF # ?r"
    by (simp add: keepalive_csv_message_def replace_all_def)
  have n: "csv_norm (?l @ LF # ?r) = ?l @ LF # csv_norm ?r"
    using l by (simp add: csv_norm_append csv_norm_Cons)
  have dw: "dropWhile (\<lambda>c. c = LF) (?l @ LF # csv_norm ?r) = ?l @ LF # csv_norm ?r"
    using l(1) hd(2) by (cases ?l) auto
  have cf: "csv_field (?l @ LF # csv_norm ?r) = csv_unq [] ?l"
    using l hd(1) csv_unq_first_line [of ?l "[]" "csv_norm ?r"] by (cases ?l) auto
  have "csv_read (?l @ LF # ?r) = csv_unq [] ?l"
    unfolding csv_read_def n Let_def dw cf by simp
  also have "\<dots> = csv_read ?l"
    using l by (rule csv_read_unquoted [symmetric])
  finally have "csv_read (?l @ LF # ?r) = csv_read ?l" .
  then show ?thesis unfolding keepalive_reply_def msg by simp
qed

theorem keepalive_first_record_witness:
  "''req:42:online'' \<noteq> [] \<and> DQUOTE \<notin> set ''req:42:online'' \<and> LF \<notin> set ''req:42:online'' \<and>
   CR \<notin> set ''req:42:online'' \<and>
   keepalive_reply (''req:42:online'' @ LF # ''req:7:\"x'') = keepalive_reply ''req:42:online''"
  using keepalive_first_record [of "''req:42:online''" "''req:7:\"x''"] by simp

end
