(* ===== verification/GoIP_Server.thy ===== *)
theory GoIP_Server
  imports GoIP_Receive GoIP_KeepAlive
begin

text \<open>
  The program around the two parsers: \<open>main\<close> of \<open>src/main.go\<close> (lines 21--93).
  Startup resolves and binds \<open>0.0.0.0:44444\<close> and exits through \<open>log.Fatal\<close>
  on failure; the loop then reads one datagram at a time into a 2048-byte
  buffer, logs it, classifies it by prefix (\<open>RECEIVE:\<close> before \<open>req\<close>), parses a
  RECEIVE message and logs the result, or answers a keep-alive with one
  \<open>WriteToUDP\<close> to the sender.  Every error is logged and the loop continues,
  except the index panic of the keep-alive branch, which ends the process.

  The state is the trace of effects so far (log events and sent datagrams) and
  whether the process still runs.  The environment is a list of network events:
  a read error, or a datagram with its payload, its sender and whether the
  reply to that sender would be sent; \<open>server_step\<close> is one iteration of the
  loop and \<open>server_run\<close> the loop over such a list.  Reachable states are those of
  an inductive predicate: a startup, then any steps.  The lemmas show that
  every send answers a received keep-alive and is bounded in length, that a
  step sends at most once, exactly when a step crashes, and what each branch
  does.
\<close>

subsection \<open>Effects, state and environment\<close>

datatype msg_kind = Receive | KeepAlive | Unrecognized

datatype log_event =
    LogStart
  | LogFatalResolve
  | LogFatalListen
  | LogReadError
  | LogReceived udp_addr go_string
  | LogParseError
  | LogParsed go_string go_string go_string udp_addr
  | LogCsvError csv_error
  | LogSendError
  | LogSent go_string

datatype effect = Log log_event | Send go_string udp_addr

datatype exit_cause = FatalResolve | FatalListen | PanicIndex

datatype server_state = Running "effect list" | Exited exit_cause "effect list"

datatype net_event = ReadError | Datagram go_string udp_addr bool

subsection \<open>Operations\<close>

definition buffer_size :: nat where
  "buffer_size = 2048"

text \<open>\<open>ReadFromUDP(buffer)\<close> keeps the first \<open>len(buffer)\<close> bytes of a longer datagram.\<close>

definition read_message :: "go_string \<Rightarrow> go_string" where
  "read_message payload = take buffer_size payload"

definition classify :: "go_string \<Rightarrow> msg_kind" where
  "classify message =
     (if has_prefix message ''RECEIVE:'' then Receive
      else if has_prefix message ''req'' then KeepAlive
      else Unrecognized)"

definition handle_receive :: "go_string \<Rightarrow> udp_addr \<Rightarrow> effect list" where
  "handle_receive message addr =
     (case parseGoIPMessage message addr of
        Inl _ \<Rightarrow> [Log LogParseError]
      | Inr parsed \<Rightarrow>
          [Log (LogParsed (ID parsed) (SrcNum parsed) (Message parsed) (RemoteAddr parsed))])"

text \<open>The keep-alive branch: its effects, and whether it panicked.\<close>

definition handle_keepalive :: "bool \<Rightarrow> go_string \<Rightarrow> udp_addr \<Rightarrow> effect list \<times> bool" where
  "handle_keepalive send_ok message addr =
     (case keepalive_reply message of
        CsvError err \<Rightarrow> ([Log (LogCsvError err)], False)
      | IndexPanic \<Rightarrow> ([], True)
      | Reply response \<Rightarrow>
          if send_ok then ([Send response addr, Log (LogSent response)], False)
          else ([Log LogSendError], False))"

definition handle_datagram :: "bool \<Rightarrow> go_string \<Rightarrow> udp_addr \<Rightarrow> effect list \<times> bool" where
  "handle_datagram send_ok message addr =
     (let received = Log (LogReceived addr message)
      in case classify message of
           Receive \<Rightarrow> (received # handle_receive message addr, False)
         | KeepAlive \<Rightarrow>
             (let (effs, panicked) = handle_keepalive send_ok message addr
              in (received # effs, panicked))
         | Unrecognized \<Rightarrow> ([received], False))"

definition server_start :: "bool \<Rightarrow> bool \<Rightarrow> server_state" where
  "server_start resolve_ok listen_ok =
     (if \<not> resolve_ok then Exited FatalResolve [Log LogFatalResolve]
      else if \<not> listen_ok then Exited FatalListen [Log LogFatalListen]
      else Running [Log LogStart])"

fun server_step :: "server_state \<Rightarrow> net_event \<Rightarrow> server_state" where
  "server_step (Exited cause trace) ev = Exited cause trace"
| "server_step (Running trace) ReadError = Running (trace @ [Log LogReadError])"
| "server_step (Running trace) (Datagram payload addr send_ok) =
     (let (effs, panicked) = handle_datagram send_ok (read_message payload) addr
      in if panicked then Exited PanicIndex (trace @ effs) else Running (trace @ effs))"

definition server_run :: "server_state \<Rightarrow> net_event list \<Rightarrow> server_state" where
  "server_run s evs = foldl server_step s evs"

fun trace_of :: "server_state \<Rightarrow> effect list" where
  "trace_of (Running trace) = trace"
| "trace_of (Exited cause trace) = trace"

inductive reachable :: "server_state \<Rightarrow> bool" where
  start: "reachable (server_start resolve_ok listen_ok)"
| step: "reachable s \<Longrightarrow> reachable (server_step s ev)"

text \<open>A send is a reply when the trace logged, from the same address, a keep-alive datagram whose reply it is.\<close>

definition sends_are_replies :: "effect list \<Rightarrow> bool" where
  "sends_are_replies trace \<longleftrightarrow>
     (\<forall>r a. Send r a \<in> set trace \<longrightarrow>
        (\<exists>m. Log (LogReceived a m) \<in> set trace \<and> classify m = KeepAlive \<and>
             keepalive_reply m = Reply r \<and> length m \<le> buffer_size))"

fun is_send :: "effect \<Rightarrow> bool" where
  "is_send (Send r a) = True"
| "is_send (Log e) = False"

subsection \<open>Lemmas\<close>

lemma classify_Receive_iff: "classify m = Receive \<longleftrightarrow> has_prefix m ''RECEIVE:''"
  by (simp add: classify_def)

lemma prefix_RECEIVE_not_req: "has_prefix m ''RECEIVE:'' \<Longrightarrow> \<not> has_prefix m ''req''"
  by (auto simp: has_prefix_iff)

lemma handle_datagram_received:
  "Log (LogReceived addr m) \<in> set (fst (handle_datagram ok m addr))"
  by (auto simp: handle_datagram_def Let_def split: msg_kind.split prod.split)

lemma handle_datagram_send:
  "Send r a \<in> set (fst (handle_datagram ok m addr)) \<Longrightarrow>
   a = addr \<and> classify m = KeepAlive \<and> keepalive_reply m = Reply r"
  by (auto simp: handle_datagram_def handle_keepalive_def handle_receive_def Let_def
           split: msg_kind.splits prod.splits keepalive_outcome.splits if_splits sum.splits)

lemma handle_datagram_sends_le_1:
  "length (filter is_send (fst (handle_datagram ok m addr))) \<le> 1"
  by (auto simp: handle_datagram_def handle_keepalive_def handle_receive_def Let_def
           split: msg_kind.splits prod.splits keepalive_outcome.splits if_splits sum.splits)

lemma server_step_trace:
  "\<exists>effs. trace_of (server_step s ev) = trace_of s @ effs \<and>
     (\<forall>e \<in> set effs. e = Log LogReadError \<or>
        (\<exists>p a ok. ev = Datagram p a ok \<and> e \<in> set (fst (handle_datagram ok (read_message p) a))))"
proof (cases s)
  case (Running t)
  then show ?thesis
    by (cases ev) (auto split: prod.split)
next
  case (Exited c t)
  then show ?thesis by simp
qed

lemma length_read_message: "length (read_message p) \<le> buffer_size"
  by (simp add: read_message_def)

lemma sends_are_replies_start: "sends_are_replies (trace_of (server_start r l))"
  by (simp add: sends_are_replies_def server_start_def)

lemma sends_are_replies_step:
  assumes "sends_are_replies (trace_of s)"
  shows "sends_are_replies (trace_of (server_step s ev))"
  unfolding sends_are_replies_def
proof (intro allI impI)
  fix r a
  assume send: "Send r a \<in> set (trace_of (server_step s ev))"
  obtain effs where tr: "trace_of (server_step s ev) = trace_of s @ effs"
    and from_dg: "\<forall>e \<in> set effs. e = Log LogReadError \<or> (\<exists>p a ok. ev = Datagram p a ok \<and>
                     e \<in> set (fst (handle_datagram ok (read_message p) a)))"
    using server_step_trace by blast
  show "\<exists>m. Log (LogReceived a m) \<in> set (trace_of (server_step s ev)) \<and> classify m = KeepAlive \<and>
            keepalive_reply m = Reply r \<and> length m \<le> buffer_size"
  proof (cases "Send r a \<in> set (trace_of s)")
    case True
    with assms tr show ?thesis by (auto simp: sends_are_replies_def)
  next
    case False
    with send tr have "Send r a \<in> set effs" by simp
    with from_dg obtain p a' ok where ev: "ev = Datagram p a' ok"
      and in_dg: "Send r a \<in> set (fst (handle_datagram ok (read_message p) a'))" by fastforce
    from handle_datagram_send [OF in_dg] have "a = a'" and "classify (read_message p) = KeepAlive"
      and "keepalive_reply (read_message p) = Reply r" by simp_all
    moreover have "Log (LogReceived a (read_message p)) \<in> set effs"
    proof -
      have "set effs \<noteq> {}" using \<open>Send r a \<in> set effs\<close> by auto
      then show ?thesis
        using tr ev \<open>a = a'\<close> handle_datagram_received [of a "read_message p" ok]
        by (cases s) (auto split: prod.splits if_splits)
    qed
    ultimately show ?thesis
      using tr length_read_message by auto
  qed
qed

lemma keepalive_step_example:
  "server_step (server_start True True) (Datagram ''req:42:online'' ''1.2.3.4:5000'' True) =
   Running [Log LogStart, Log (LogReceived ''1.2.3.4:5000'' ''req:42:online''),
            Send ''reg:42;status:200;'' ''1.2.3.4:5000'', Log (LogSent ''reg:42;status:200;'')]"
  by (simp add: server_start_def handle_datagram_def handle_keepalive_def classify_def
                read_message_def buffer_size_def keepalive_reply_scenario)

lemma reachable_replies_inv:
  "reachable s \<Longrightarrow> sends_are_replies (trace_of s)"
proof (induction rule: reachable.induct)
  case (start resolve_ok listen_ok)
  then show ?case by (rule sends_are_replies_start)
next
  case (step s ev)
  from step.IH show ?case by (rule sends_are_replies_step)
qed

text \<open>C3: in every reachable state, every datagram the server has sent went to an address from which it received a keep-alive datagram of at most 2048 bytes, and is the reply the responder computes for that datagram.\<close>

theorem reachable_sends_are_replies:
  assumes "reachable s" and "Send r a \<in> set (trace_of s)"
  shows "\<exists>m. Log (LogReceived a m) \<in> set (trace_of s) \<and> classify m = KeepAlive \<and>
             keepalive_reply m = Reply r \<and> length m \<le> buffer_size"
  using reachable_replies_inv [OF assms(1)] assms(2) by (simp add: sends_are_replies_def)

theorem reachable_sends_are_replies_witness:
  "reachable (server_step (server_start True True) (Datagram ''req:42:online'' ''1.2.3.4:5000'' True)) \<and>
   Send ''reg:42;status:200;'' ''1.2.3.4:5000''
     \<in> set (trace_of (server_step (server_start True True) (Datagram ''req:42:online'' ''1.2.3.4:5000'' True))) \<and>
   (\<exists>m. Log (LogReceived ''1.2.3.4:5000'' m)
          \<in> set (trace_of (server_step (server_start True True)
                               (Datagram ''req:42:online'' ''1.2.3.4:5000'' True))) \<and>
        classify m = KeepAlive \<and> keepalive_reply m = Reply ''reg:42;status:200;'' \<and>
        length m \<le> buffer_size)"
proof -
  have r: "reachable (server_step (server_start True True) (Datagram ''req:42:online'' ''1.2.3.4:5000'' True))"
    by (rule reachable.step [OF reachable.start])
  have s: "Send ''reg:42;status:200;'' ''1.2.3.4:5000''
     \<in> set (trace_of (server_step (server_start True True) (Datagram ''req:42:online'' ''1.2.3.4:5000'' True)))"
    by (simp add: keepalive_step_example)
  show ?thesis using reachable_sends_are_replies [OF r s] r s by blast
qed

lemma length_format_response: "length (format_response f) = length f + 16"
  by (simp add: format_response_def)

text \<open>C25: every datagram the server sends is at most 2064 bytes long: the 2048-byte read buffer plus the 16 bytes of the reg ... status:200 frame.\<close>

theorem reachable_send_bound:
  assumes "reachable s" and "Send r a \<in> set (trace_of s)"
  shows "length r \<le> buffer_size + 16"
proof -
  from reachable_replies_inv [OF assms(1)] assms(2) obtain m where
    reply: "keepalive_reply m = Reply r" and len: "length m \<le> buffer_size"
    by (auto simp: sends_are_replies_def)
  from keepalive_reply_length [OF reply] obtain f where
    "r = format_response f" and "length f \<le> length m" by blast
  with len show ?thesis by (simp add: length_format_response)
qed

theorem reachable_send_bound_witness:
  "reachable (server_step (server_start True True) (Datagram ''req:42:online'' ''1.2.3.4:5000'' True)) \<and>
   Send ''reg:42;status:200;'' ''1.2.3.4:5000''
     \<in> set (trace_of (server_step (server_start True True) (Datagram ''req:42:online'' ''1.2.3.4:5000'' True))) \<and>
   length ''reg:42;status:200;'' \<le> buffer_size + 16"
proof -
  have r: "reachable (server_step (server_start True True) (Datagram ''req:42:online'' ''1.2.3.4:5000'' True))"
    by (rule reachable.step [OF reachable.start])
  have s: "Send ''reg:42;status:200;'' ''1.2.3.4:5000''
     \<in> set (trace_of (server_step (server_start True True) (Datagram ''req:42:online'' ''1.2.3.4:5000'' True)))"
    by (simp add: keepalive_step_example)
  show ?thesis using reachable_send_bound [OF r s] r s by simp
qed

lemma server_step_sends:
  "length (filter is_send (trace_of (server_step s ev))) \<le> length (filter is_send (trace_of s)) + 1"
proof (cases s)
  case (Running t)
  then show ?thesis
  proof (cases ev)
    case (Datagram p a ok)
    have "length (filter is_send (fst (handle_datagram ok (read_message p) a))) \<le> 1"
      by (rule handle_datagram_sends_le_1)
    with Running Datagram show ?thesis by (auto split: prod.split)
  qed simp
qed simp

text \<open>C26: the server sends at most one datagram per network event: a run over n events adds at most n sends to the trace.\<close>

theorem server_run_sends:
  "length (filter is_send (trace_of (server_run s evs))) \<le> length (filter is_send (trace_of s)) + length evs"
proof (induction evs arbitrary: s)
  case Nil
  then show ?case by (simp add: server_run_def)
next
  case (Cons ev evs)
  have "length (filter is_send (trace_of (server_run (server_step s ev) evs)))
        \<le> length (filter is_send (trace_of (server_step s ev))) + length evs"
    by (rule Cons.IH)
  also have "\<dots> \<le> length (filter is_send (trace_of s)) + 1 + length evs"
    using server_step_sends [of s ev] by simp
  finally show ?case by (simp add: server_run_def)
qed

text \<open>C2: a datagram ends the server exactly when it is a keep-alive whose CSV record has fewer than two fields; the receipt log entry is its only effect.\<close>

theorem server_step_crash_iff:
  "server_step (Running t) (Datagram p a ok) = Exited cause t' \<longleftrightarrow>
   cause = PanicIndex \<and> classify (read_message p) = KeepAlive \<and>
   keepalive_reply (read_message p) = IndexPanic \<and>
   t' = t @ [Log (LogReceived a (read_message p))]"
  by (auto simp: handle_datagram_def handle_keepalive_def Let_def
           split: msg_kind.splits keepalive_outcome.splits if_splits prod.splits)

text \<open>C24: a datagram matching neither prefix is only logged as received: it is not parsed and gets no response.\<close>

theorem server_step_unrecognized:
  "classify (read_message p) = Unrecognized \<Longrightarrow>
   server_step (Running t) (Datagram p a ok) = Running (t @ [Log (LogReceived a (read_message p))])"
  by (simp add: handle_datagram_def)

theorem server_step_unrecognized_witness:
  "classify (read_message ''hello world'') = Unrecognized \<and>
   server_step (Running []) (Datagram ''hello world'' ''1.2.3.4:5000'' True) =
     Running [Log (LogReceived ''1.2.3.4:5000'' ''hello world'')]"
proof -
  have c: "classify (read_message ''hello world'') = Unrecognized"
    by (simp add: classify_def read_message_def buffer_size_def)
  have m: "read_message ''hello world'' = ''hello world''"
    by (simp add: read_message_def buffer_size_def)
  show ?thesis using server_step_unrecognized [OF c, of "[]" "''1.2.3.4:5000''" True] c m by simp
qed

text \<open>C22: a RECEIVE datagram never fails to parse in the loop: it is logged as received and then as parsed, with the attributes of the abstract specification; the parse-error branch of the loop is unreachable.\<close>

theorem server_step_receive:
  assumes "has_prefix (read_message p) ''RECEIVE:''"
  shows "server_step (Running t) (Datagram p a ok) =
     Running (t @ [Log (LogReceived a (read_message p)),
                   Log (LogParsed (ID (receive_spec (drop (length ''RECEIVE:'') (read_message p)) a))
                                  (SrcNum (receive_spec (drop (length ''RECEIVE:'') (read_message p)) a))
                                  (Message (receive_spec (drop (length ''RECEIVE:'') (read_message p)) a)) a)])"
proof -
  have "str_index (read_message p) ''RECEIVE:'' = Some 0"
    using assms by (rule str_index_has_prefix)
  then have "parseGoIPMessage (read_message p) a = Inr (receive_spec (drop (length ''RECEIVE:'') (read_message p)) a)"
    by (simp add: parse_characterisation)
  moreover have "RemoteAddr (receive_spec d a) = a" for d
    by (simp add: receive_spec_def assign_pairs_def new_message_def)
  ultimately show ?thesis
    using assms by (simp add: handle_datagram_def handle_receive_def classify_def)
qed

theorem server_step_receive_witness:
  "has_prefix (read_message ''RECEIVE:id:42'') ''RECEIVE:'' \<and>
   server_step (Running []) (Datagram ''RECEIVE:id:42'' ''1.2.3.4:5000'' True) =
     Running [Log (LogReceived ''1.2.3.4:5000'' ''RECEIVE:id:42''),
              Log (LogParsed ''42'' [] [] ''1.2.3.4:5000'')]"
proof -
  have m: "read_message ''RECEIVE:id:42'' = ''RECEIVE:id:42''"
    by (simp add: read_message_def buffer_size_def)
  have h: "has_prefix (read_message ''RECEIVE:id:42'') ''RECEIVE:''"
    by (simp add: m)
  have spec: "receive_spec ''id:42'' ''1.2.3.4:5000'' =
     \<lparr>ID = ''42'', Password = [], SrcNum = [], Message = [], RemoteAddr = ''1.2.3.4:5000''\<rparr>"
    by (simp add: receive_spec_def assign_pairs_def new_message_def field_pairs_def field_pair_def
                  last_value_def go_simps)
  show ?thesis using server_step_receive [OF h, of "[]" "''1.2.3.4:5000''" True] h m spec by simp
qed

text \<open>C23: a keep-alive datagram that has a reply, when the send succeeds, produces the receipt log entry, exactly one datagram to the sender carrying the reply, and the sent log entry.\<close>

theorem server_step_keepalive_reply:
  assumes "classify (read_message p) = KeepAlive" and "keepalive_reply (read_message p) = Reply r"
  shows "server_step (Running t) (Datagram p a True) =
     Running (t @ [Log (LogReceived a (read_message p)), Send r a, Log (LogSent r)])"
  using assms by (simp add: handle_datagram_def handle_keepalive_def)

theorem server_step_keepalive_reply_witness:
  "classify (read_message ''req:42:online'') = KeepAlive \<and>
   keepalive_reply (read_message ''req:42:online'') = Reply ''reg:42;status:200;'' \<and>
   server_step (Running []) (Datagram ''req:42:online'' ''1.2.3.4:5000'' True) =
     Running [Log (LogReceived ''1.2.3.4:5000'' ''req:42:online''),
              Send ''reg:42;status:200;'' ''1.2.3.4:5000'', Log (LogSent ''reg:42;status:200;'')]"
proof -
  have m: "read_message ''req:42:online'' = ''req:42:online''"
    by (simp add: read_message_def buffer_size_def)
  have c: "classify (read_message ''req:42:online'') = KeepAlive"
    by (simp add: m classify_def)
  have k: "keepalive_reply (read_message ''req:42:online'') = Reply ''reg:42;status:200;''"
    by (simp add: m keepalive_reply_scenario)
  show ?thesis using server_step_keepalive_reply [OF c k, of "[]" "''1.2.3.4:5000''"] c k m by simp
qed

text \<open>C21: the classifier dispatches by prefix, case-sensitively: RECEIVE: makes a RECEIVE message, req a keep-alive, anything else is unrecognised; no datagram is both.\<close>

theorem classify_spec:
  "(classify m = Receive \<longleftrightarrow> has_prefix m ''RECEIVE:'') \<and>
   (classify m = KeepAlive \<longleftrightarrow> has_prefix m ''req'') \<and>
   (classify m = Unrecognized \<longleftrightarrow> \<not> has_prefix m ''RECEIVE:'' \<and> \<not> has_prefix m ''req'')"
  by (auto simp: classify_def dest: prefix_RECEIVE_not_req)

end
