(* ===== verification/GoIP_Logging.thy ===== *)
theory GoIP_Logging
  imports GoIP_Server "HOL-Library.Sublist"
begin

text \<open>
  The logrus calls of \<open>main\<close> (\<open>src/main.go\<close> lines 30, 36, 40, 47, 52--55, 61,
  64--69, 77, 85, 88--90) as structured entries: the level of the call
  (\<open>Info\<close>, \<open>Error\<close>, \<open>Fatal\<close>), its message text, the \<open>logrus.Fields\<close> it
  attaches, in the order the source writes them, and whether it goes through
  \<open>WithError\<close>.  \<open>log_entry_of\<close> maps each log event of the loop model to the
  entry the call writes; \<open>logged\<close> reads the log off a trace.  The lemmas show
  that errors are logged at level Error and never stop the loop, and that the
  raw receipt entry carries the device password that the parsed entry omits.
\<close>

subsection \<open>Log entries\<close>

datatype log_level = InfoLevel | ErrorLevel | FatalLevel

record log_entry =
  entry_level :: log_level
  entry_msg :: go_string
  entry_fields :: "(go_string \<times> go_string) list"
  entry_with_error :: bool

fun log_entry_of :: "log_event \<Rightarrow> log_entry" where
  "log_entry_of LogStart =
     \<lparr>entry_level = InfoLevel, entry_msg = ''Start listening for GOIP messages'',
      entry_fields = [], entry_with_error = False\<rparr>"
| "log_entry_of LogFatalResolve =
     \<lparr>entry_level = FatalLevel, entry_msg = ''ResolveUDPAddr failed'',
      entry_fields = [], entry_with_error = True\<rparr>"
| "log_entry_of LogFatalListen =
     \<lparr>entry_level = FatalLevel, entry_msg = ''ListenUDP failed'',
      entry_fields = [], entry_with_error = True\<rparr>"
| "log_entry_of LogReadError =
     \<lparr>entry_level = ErrorLevel, entry_msg = ''Error reading from UDP'',
      entry_fields = [], entry_with_error = True\<rparr>"
| "log_entry_of (LogReceived addr message) =
     \<lparr>entry_level = InfoLevel, entry_msg = ''Received message'',
      entry_fields = [(''remote_address'', addr), (''message'', message)],
      entry_with_error = False\<rparr>"
| "log_entry_of LogParseError =
     \<lparr>entry_level = ErrorLevel, entry_msg = ''Error parsing RECEIVE message'',
      entry_fields = [], entry_with_error = True\<rparr>"
| "log_entry_of (LogParsed i s m a) =
     \<lparr>entry_level = InfoLevel, entry_msg = ''Parsed RECEIVE message'',
      entry_fields = [(''id'', i), (''srcnum'', s), (''message'', m), (''remote_addr'', a)],
      entry_with_error = False\<rparr>"
| "log_entry_of (LogCsvError err) =
     \<lparr>entry_level = ErrorLevel, entry_msg = ''Error parsing CSV'',
      entry_fields = [], entry_with_error = True\<rparr>"
| "log_entry_of LogSendError =
     \<lparr>entry_level = ErrorLevel, entry_msg = ''Error sending response'',
      entry_fields = [], entry_with_error = True\<rparr>"
| "log_entry_of (LogSent response) =
     \<lparr>entry_level = InfoLevel, entry_msg = ''Sent response'',
      entry_fields = [(''response'', response)], entry_with_error = False\<rparr>"

fun log_of_effect :: "effect \<Rightarrow> log_entry option" where
  "log_of_effect (Log ev) = Some (log_entry_of ev)"
| "log_of_effect (Send r a) = None"

definition logged :: "effect list \<Rightarrow> log_entry list" where
  "logged trace = List.map_filter log_of_effect trace"

subsection \<open>Lemmas\<close>

lemma logged_append [simp]: "logged (t @ u) = logged t @ logged u"
  by (simp add: logged_def map_filter_def)

lemma logged_Log [simp]: "logged (Log ev # t) = log_entry_of ev # logged t"
  by (simp add: logged_def map_filter_def)

lemma logged_Send [simp]: "logged (Send r a # t) = logged t"
  by (simp add: logged_def map_filter_def)

lemma logged_Nil [simp]: "logged [] = []"
  by (simp add: logged_def map_filter_def)

lemma go_split_sublist: "f \<in> set (go_split s d) \<Longrightarrow> sublist f s"
proof (induction s arbitrary: f)
  case Nil
  then show ?case by simp
next
  case (Cons c cs)
  obtain g gs where split: "go_split cs d = g # gs"
    by (cases "go_split cs d") auto
  show ?case
  proof (cases "c = d")
    case True
    with Cons show ?thesis by (auto simp: go_split_Cons sublist_Cons_right)
  next
    case False
    with Cons.prems split have "f = c # g \<or> f \<in> set gs" by (simp add: go_split_Cons)
    then show ?thesis
    proof
      assume "f = c # g"
      moreover have "prefix g cs" using split
        by (metis go_join.simps go_split_join list.exhaust prefix_append prefix_order.eq_iff)
      ultimately show ?thesis by (auto intro: prefix_imp_sublist)
    next
      assume "f \<in> set gs"
      with Cons.IH split show ?thesis by (auto simp: sublist_Cons_right)
    qed
  qed
qed

lemma trim_space_sublist: "sublist (trim_space s) s"
  using trim_space_infix [of s] by (auto simp: sublist_def)

lemma field_pair_sublist:
  assumes "field_pair f = Some (k, v)"
  shows "sublist v f"
proof -
  obtain a b where split: "go_split f CHR '':'' = [a, b]" and v: "v = trim_space b"
    using assms by (auto simp: field_pair_def split: list.splits)
  then have "sublist b f" by (intro go_split_sublist [of _ _ "CHR '':''"]) simp
  with v show ?thesis by (metis sublist_order.order_trans trim_space_sublist)
qed

lemma last_value_cases:
  "last_value kvs key d = d \<or> (\<exists>k. (k, last_value kvs key d) \<in> set kvs)"
  by (auto simp: last_value_def split: option.split dest: map_of_SomeD)

text \<open>Each attribute the parser can return is the empty default or a piece of the payload.\<close>

lemma receive_spec_password_sublist: "sublist (Password (receive_spec d a)) d"
proof -
  let ?kvs = "field_pairs (go_split d CHR '';'')"
  have pw: "Password (receive_spec d a) = last_value ?kvs ''password'' []"
    by (simp add: receive_spec_def assign_pairs_def new_message_def)
  from last_value_cases [of ?kvs "''password''" "[]"] show ?thesis
  proof
    assume "last_value ?kvs ''password'' [] = []"
    then show ?thesis by (simp add: pw)
  next
    assume "\<exists>k. (k, last_value ?kvs ''password'' []) \<in> set ?kvs"
    then obtain k f where f: "f \<in> set (go_split d CHR '';'')"
      and fp: "field_pair f = Some (k, last_value ?kvs ''password'' [])"
      by (auto simp: field_pairs_def dest: map_filter_SomeD)
    from field_pair_sublist [OF fp] go_split_sublist [OF f] show ?thesis
      by (simp add: pw sublist_order.order_trans)
  qed
qed

lemma server_step_logs_receipt:
  "Log (LogReceived a (read_message p)) \<in> set (trace_of (server_step (Running t) (Datagram p a ok)))"
  using handle_datagram_received [of a "read_message p" ok]
  by (auto split: prod.split)

text \<open>C11: the device password of every RECEIVE datagram is written to the log: the Info-level Received message entry of the step carries, in its message field, the raw payload, which contains the password the parser extracts (the parsed-message entry omits it, lines 64--69).\<close>

theorem password_in_receipt_log:
  assumes "has_prefix (read_message p) ''RECEIVE:''"
    and "parseGoIPMessage (read_message p) a = Inr msg"
  shows "\<exists>e \<in> set (logged (trace_of (server_step (Running t) (Datagram p a ok)))).
           entry_level e = InfoLevel \<and> entry_msg e = ''Received message'' \<and>
           (\<exists>v. map_of (entry_fields e) ''message'' = Some v \<and> sublist (Password msg) v)"
proof -
  let ?m = "read_message p"
  have "str_index ?m ''RECEIVE:'' = Some 0" using assms(1) by (rule str_index_has_prefix)
  with assms(2) have msg: "msg = receive_spec (drop (length ''RECEIVE:'') ?m) a"
    by (simp add: parse_characterisation)
  have "sublist (Password msg) ?m"
    using receive_spec_password_sublist sublist_drop msg by (metis sublist_order.order_trans)
  moreover have "log_entry_of (LogReceived a ?m) \<in> set (logged (trace_of (server_step (Running t) (Datagram p a ok))))"
    using server_step_logs_receipt [of a p t ok]
    by (auto simp: logged_def map_filter_def intro!: image_eqI [where x = "Log (LogReceived a ?m)"])
  ultimately show ?thesis by force
qed

theorem password_in_receipt_log_witness:
  "has_prefix (read_message ''RECEIVE:id:42;password:secret'') ''RECEIVE:'' \<and>
   parseGoIPMessage (read_message ''RECEIVE:id:42;password:secret'') ''1.2.3.4:5000'' =
     Inr \<lparr>ID = ''42'', Password = ''secret'', SrcNum = [], Message = [], RemoteAddr = ''1.2.3.4:5000''\<rparr> \<and>
   (\<exists>e \<in> set (logged (trace_of (server_step (Running [])
                        (Datagram ''RECEIVE:id:42;password:secret'' ''1.2.3.4:5000'' True)))).
      entry_level e = InfoLevel \<and> entry_msg e = ''Received message'' \<and>
      (\<exists>v. map_of (entry_fields e) ''message'' = Some v \<and> sublist ''secret'' v))"
proof -
  have m: "read_message ''RECEIVE:id:42;password:secret'' = ''RECEIVE:id:42;password:secret''"
    by (simp add: read_message_def buffer_size_def)
  have h: "has_prefix (read_message ''RECEIVE:id:42;password:secret'') ''RECEIVE:''"
    by (simp add: m)
  have p: "parseGoIPMessage (read_message ''RECEIVE:id:42;password:secret'') ''1.2.3.4:5000'' =
     Inr \<lparr>ID = ''42'', Password = ''secret'', SrcNum = [], Message = [], RemoteAddr = ''1.2.3.4:5000''\<rparr>"
    by (simp add: m parseGoIPMessage_def go_simps new_message_def set_field_def apply_field_def)
  show ?thesis using password_in_receipt_log [OF h p, of "[]" True] h p by simp
qed

lemma handle_datagram_levels:
  assumes "e \<in> set (logged (fst (handle_datagram ok m a)))"
  shows "entry_level e \<noteq> FatalLevel \<and> (entry_level e = ErrorLevel \<longrightarrow> \<not> snd (handle_datagram ok m a))"
  using assms
  by (auto simp: handle_datagram_def handle_keepalive_def handle_receive_def Let_def
           split: msg_kind.splits prod.splits keepalive_outcome.splits if_splits sum.splits)

text \<open>C12: no iteration of the loop logs at level Fatal, and an iteration that logs an error (read, parse, CSV or send error) leaves the server running: each error drops only its datagram.\<close>

theorem step_errors_continue:
  assumes "e \<in> set (logged (trace_of (server_step (Running t) ev)))" and "e \<notin> set (logged t)"
  shows "entry_level e \<noteq> FatalLevel \<and>
         (entry_level e = ErrorLevel \<longrightarrow> (\<exists>t'. server_step (Running t) ev = Running t'))"
proof (cases ev)
  case ReadError
  with assms show ?thesis by auto
next
  case (Datagram p a ok)
  obtain effs panicked where hd: "handle_datagram ok (read_message p) a = (effs, panicked)"
    by fastforce
  with assms Datagram have "e \<in> set (logged effs)"
    by (auto split: if_splits)
  with handle_datagram_levels [of e ok "read_message p" a] hd Datagram show ?thesis
    by auto
qed

theorem step_errors_continue_witness:
  "log_entry_of LogReadError \<in> set (logged (trace_of (server_step (Running []) ReadError))) \<and>
   log_entry_of LogReadError \<notin> set (logged []) \<and>
   entry_level (log_entry_of LogReadError) \<noteq> FatalLevel \<and>
   entry_level (log_entry_of LogReadError) = ErrorLevel \<and>
   (\<exists>t'. server_step (Running []) ReadError = Running t')"
proof -
  have i: "log_entry_of LogReadError \<in> set (logged (trace_of (server_step (Running []) ReadError)))"
    by simp
  have n: "log_entry_of LogReadError \<notin> set (logged [])" by simp
  show ?thesis using step_errors_continue [OF i n] i n by simp
qed

end
