(* ===== verification/GoIP_Main.thy ===== *)
theory GoIP_Main
  imports GoIP_Logging
begin

text \<open>
  The whole process of \<open>src/main.go\<close>: startup, then the \<open>for {}\<close> loop of
  lines 43--92 until the process ends.  The loop has no exit of its own: it ends
  only when startup fails (\<open>log.Fatal\<close>, lines 28--37) or when the keep-alive
  branch panics (line 82).  \<open>main_loop\<close> runs the loop over the events the
  environment delivers and returns the final state when the process ends; when
  the events run out while the process still runs, \<open>ReadFromUDP\<close> blocks forever
  and the result is \<open>None\<close>.  The lemmas characterise when the program returns,
  show that without a panicking datagram every datagram is logged and every
  answerable keep-alive answered in order, and give a well-formedness invariant
  of every reachable trace.
\<close>

subsection \<open>The process\<close>

text \<open>Whether the handler of one event panics, and the effects one iteration appends.\<close>

fun panics :: "net_event \<Rightarrow> bool" where
  "panics ReadError = False"
| "panics (Datagram payload addr send_ok) = snd (handle_datagram send_ok (read_message payload) addr)"

fun step_effects :: "net_event \<Rightarrow> effect list" where
  "step_effects ReadError = [Log LogReadError]"
| "step_effects (Datagram payload addr send_ok) = fst (handle_datagram send_ok (read_message payload) addr)"

fun main_loop :: "server_state \<Rightarrow> net_event list \<Rightarrow> server_state option" where
  "main_loop (Exited cause trace) evs = Some (Exited cause trace)"
| "main_loop (Running trace) [] = None"
| "main_loop (Running trace) (ev # evs) = main_loop (server_step (Running trace) ev) evs"

definition goip_main :: "bool \<Rightarrow> bool \<Rightarrow> net_event list \<Rightarrow> server_state option" where
  "goip_main resolve_ok listen_ok evs = main_loop (server_start resolve_ok listen_ok) evs"

subsection \<open>Observations of a trace\<close>

fun receipts :: "effect list \<Rightarrow> (udp_addr \<times> go_string) list" where
  "receipts [] = []"
| "receipts (Log (LogReceived a m) # rest) = (a, m) # receipts rest"
| "receipts (e # rest) = receipts rest"

fun sends :: "effect list \<Rightarrow> (go_string \<times> udp_addr) list" where
  "sends [] = []"
| "sends (Send r a # rest) = (r, a) # sends rest"
| "sends (e # rest) = sends rest"

fun datagrams :: "net_event list \<Rightarrow> (udp_addr \<times> go_string) list" where
  "datagrams [] = []"
| "datagrams (ReadError # evs) = datagrams evs"
| "datagrams (Datagram p a ok # evs) = (a, read_message p) # datagrams evs"

text \<open>The replies due to the keep-alive datagrams whose send succeeds.\<close>

fun replies_due :: "net_event list \<Rightarrow> (go_string \<times> udp_addr) list" where
  "replies_due [] = []"
| "replies_due (ReadError # evs) = replies_due evs"
| "replies_due (Datagram p a ok # evs) =
     (if ok \<and> classify (read_message p) = KeepAlive
      then (case keepalive_reply (read_message p) of Reply r \<Rightarrow> [(r, a)] | _ \<Rightarrow> [])
      else []) @ replies_due evs"

text \<open>Well-formedness of a state: a running or panicked process logged its start
  first and only once, never logged at level Fatal, and logged every send right
  after it with the same response (the \<open>Sent response\<close> call follows a
  successful \<open>WriteToUDP\<close>); a panicked process's last effect is the receipt of
  the datagram that panicked; a failed startup left only its fatal entry.\<close>

fun sends_logged :: "effect list \<Rightarrow> bool" where
  "sends_logged [] = True"
| "sends_logged (Send r a # Log (LogSent r') # rest) = (r' = r \<and> sends_logged rest)"
| "sends_logged (Send r a # rest) = False"
| "sends_logged (Log ev # rest) = sends_logged rest"

definition no_fatal :: "effect list \<Rightarrow> bool" where
  "no_fatal t \<longleftrightarrow> (\<forall>e \<in> set (logged t). entry_level e \<noteq> FatalLevel)"

definition started_once :: "effect list \<Rightarrow> bool" where
  "started_once t \<longleftrightarrow> take 1 t = [Log LogStart] \<and> Log LogStart \<notin> set (tl t)"

fun panic_receipt :: "effect \<Rightarrow> bool" where
  "panic_receipt (Log (LogReceived a m)) =
     (classify m = KeepAlive \<and> keepalive_reply m = IndexPanic)"
| "panic_receipt e = False"

fun state_wf :: "server_state \<Rightarrow> bool" where
  "state_wf (Running t) = (started_once t \<and> no_fatal t \<and> sends_logged t)"
| "state_wf (Exited FatalResolve t) = (t = [Log LogFatalResolve])"
| "state_wf (Exited FatalListen t) = (t = [Log LogFatalListen])"
| "state_wf (Exited PanicIndex t) =
     (started_once t \<and> no_fatal t \<and> sends_logged t \<and> t \<noteq> [] \<and> panic_receipt (last t))"

subsection \<open>Lemmas\<close>

lemma server_step_Running:
  "server_step (Running t) ev =
     (if panics ev then Exited PanicIndex (t @ step_effects ev) else Running (t @ step_effects ev))"
  by (cases ev) (auto split: prod.split)

lemma receipts_append [simp]: "receipts (t @ u) = receipts t @ receipts u"
  by (induction t rule: receipts.induct) auto

lemma sends_append [simp]: "sends (t @ u) = sends t @ sends u"
  by (induction t rule: sends.induct) auto

lemma receipts_step: "receipts (step_effects ev) = datagrams [ev]"
  by (cases ev) (auto simp: handle_datagram_def handle_keepalive_def handle_receive_def Let_def
                      split: msg_kind.splits prod.splits keepalive_outcome.splits if_splits sum.splits)

lemma sends_step: "sends (step_effects ev) = replies_due [ev]"
  by (cases ev) (auto simp: handle_datagram_def handle_keepalive_def handle_receive_def Let_def classify_def
                      split: msg_kind.splits prod.splits keepalive_outcome.splits if_splits sum.splits)

lemma datagrams_Cons: "datagrams (ev # evs) = datagrams [ev] @ datagrams evs"
  by (cases ev) auto

lemma replies_due_Cons: "replies_due (ev # evs) = replies_due [ev] @ replies_due evs"
  by (cases ev) auto

lemma server_run_no_panic:
  "\<forall>ev \<in> set evs. \<not> panics ev \<Longrightarrow>
   server_run (Running t) evs = Running (t @ concat (map step_effects evs))"
  by (induction evs arbitrary: t) (simp_all add: server_run_def server_step_Running)

lemma main_loop_returns:
  "main_loop (Running t) evs \<noteq> None \<longleftrightarrow> (\<exists>ev \<in> set evs. panics ev)"
  by (induction evs arbitrary: t) (auto simp: server_step_Running)

lemma sends_logged_append:
  "sends_logged t \<Longrightarrow> sends_logged u \<Longrightarrow> sends_logged (t @ u)"
  by (induction t rule: sends_logged.induct) auto

lemma no_fatal_append [simp]: "no_fatal (t @ u) \<longleftrightarrow> no_fatal t \<and> no_fatal u"
  by (auto simp: no_fatal_def)

lemma started_once_append:
  "started_once t \<Longrightarrow> Log LogStart \<notin> set u \<Longrightarrow> started_once (t @ u)"
  by (cases t) (auto simp: started_once_def)

lemma step_effects_wf:
  "Log LogStart \<notin> set (step_effects ev) \<and> no_fatal (step_effects ev) \<and> sends_logged (step_effects ev)"
  by (cases ev) (auto simp: handle_datagram_def handle_keepalive_def handle_receive_def Let_def no_fatal_def
                      split: msg_kind.splits prod.splits keepalive_outcome.splits if_splits sum.splits)

lemma panic_step_effects:
  "panics ev \<Longrightarrow> \<exists>a m. step_effects ev = [Log (LogReceived a m)] \<and> panic_receipt (Log (LogReceived a m))"
  by (cases ev) (auto simp: handle_datagram_def handle_keepalive_def Let_def
                      split: msg_kind.splits prod.splits keepalive_outcome.splits if_splits)

lemma state_wf_start: "state_wf (server_start resolve_ok listen_ok)"
  by (simp add: server_start_def started_once_def no_fatal_def)

lemma state_wf_step:
  assumes "state_wf s"
  shows "state_wf (server_step s ev)"
proof (cases s)
  case (Running t)
  have wf: "started_once t" "no_fatal t" "sends_logged t" using assms Running by simp_all
  have eff: "Log LogStart \<notin> set (step_effects ev)" "no_fatal (step_effects ev)"
    "sends_logged (step_effects ev)" using step_effects_wf [of ev] by simp_all
  have common: "started_once (t @ step_effects ev) \<and> no_fatal (t @ step_effects ev) \<and>
                sends_logged (t @ step_effects ev)"
    using wf eff by (simp add: started_once_append sends_logged_append)
  show ?thesis
  proof (cases "panics ev")
    case True
    then obtain a m where "step_effects ev = [Log (LogReceived a m)]"
      and "panic_receipt (Log (LogReceived a m))" by (blast dest: panic_step_effects)
    with common Running True show ?thesis by (simp add: server_step_Running)
  next
    case False
    with common Running show ?thesis by (simp add: server_step_Running)
  qed
next
  case (Exited c t)
  with assms show ?thesis by simp
qed

text \<open>C10: every reachable state is well formed: a running or panicked process logged its start first and once, never logged at level Fatal, and logged every send right after it with the same response; a panicked process ends with the receipt of the keep-alive that panicked; a failed startup logged only its Fatal entry.\<close>

theorem reachable_state_wf: "reachable s \<Longrightarrow> state_wf s"
proof (induction rule: reachable.induct)
  case (start resolve_ok listen_ok)
  show ?case by (rule state_wf_start)
next
  case (step s ev)
  from step.IH show ?case by (rule state_wf_step)
qed

theorem reachable_state_wf_witness:
  "reachable (server_step (server_start True True) (Datagram ''req:42:online'' ''1.2.3.4:5000'' True)) \<and>
   state_wf (server_step (server_start True True) (Datagram ''req:42:online'' ''1.2.3.4:5000'' True))"
proof -
  have r: "reachable (server_step (server_start True True) (Datagram ''req:42:online'' ''1.2.3.4:5000'' True))"
    by (rule reachable.step [OF reachable.start])
  show ?thesis using reachable_state_wf [OF r] r by simp
qed

text \<open>C8: the program returns (the process ends) exactly when startup fails or some datagram makes the keep-alive branch panic; otherwise it is still blocked reading the next datagram when the events run out: the loop itself never ends.\<close>

theorem goip_main_returns:
  "(\<exists>s. goip_main resolve_ok listen_ok evs = Some s) \<longleftrightarrow>
   \<not> resolve_ok \<or> \<not> listen_ok \<or> (\<exists>ev \<in> set evs. panics ev)"
  using main_loop_returns [of "[Log LogStart]" evs]
  by (auto simp: goip_main_def server_start_def)

theorem goip_main_returns_witness:
  "(\<exists>s. goip_main True True [ReadError, Datagram ''req'' ''1.2.3.4:5000'' True] = Some s) \<and>
   \<not> (\<exists>s. goip_main True True [Datagram ''req:42:online'' ''1.2.3.4:5000'' True] = Some s)"
proof -
  have p: "panics (Datagram ''req'' ''1.2.3.4:5000'' True)"
    by (simp add: handle_datagram_def handle_keepalive_def classify_def read_message_def buffer_size_def
                  keepalive_reply_def keepalive_csv_message_def csv_read_def go_simps)
  have n: "\<not> panics (Datagram ''req:42:online'' ''1.2.3.4:5000'' True)"
    by (simp add: handle_datagram_def handle_keepalive_def classify_def read_message_def buffer_size_def
                  keepalive_reply_scenario)
  show ?thesis
    using goip_main_returns [of True True "[ReadError, Datagram ''req'' ''1.2.3.4:5000'' True]"]
          goip_main_returns [of True True "[Datagram ''req:42:online'' ''1.2.3.4:5000'' True]"] p n
    by simp
qed

lemma receipts_run: "receipts (concat (map step_effects evs)) = datagrams evs"
proof (induction evs)
  case (Cons ev evs)
  then show ?case by (simp add: receipts_step datagrams_Cons [of ev evs])
qed simp

lemma sends_run: "sends (concat (map step_effects evs)) = replies_due evs"
proof (induction evs)
  case (Cons ev evs)
  then show ?case by (simp add: sends_step replies_due_Cons [of ev evs])
qed simp

text \<open>C9: while no datagram panics, the server keeps running through every event, logs the receipt of every datagram in arrival order, and sends exactly the replies due to the keep-alive datagrams whose send succeeds, in order and to their senders.\<close>

theorem server_run_progress:
  assumes "\<forall>ev \<in> set evs. \<not> panics ev"
  shows "\<exists>t'. server_run (Running t) evs = Running t' \<and>
              receipts t' = receipts t @ datagrams evs \<and> sends t' = sends t @ replies_due evs"
  using server_run_no_panic [OF assms, of t] by (simp add: receipts_run sends_run)

theorem server_run_progress_witness:
  "\<not> panics (Datagram ''req:42:online'' ''1.2.3.4:5000'' True) \<and> \<not> panics ReadError \<and>
   \<not> panics (Datagram ''hello'' ''5.6.7.8:9'' False) \<and>
   (\<exists>t'. server_run (Running [Log LogStart])
           [Datagram ''req:42:online'' ''1.2.3.4:5000'' True, ReadError,
            Datagram ''hello'' ''5.6.7.8:9'' False] = Running t' \<and>
         receipts t' = [(''1.2.3.4:5000'', ''req:42:online''), (''5.6.7.8:9'', ''hello'')] \<and>
         sends t' = [(''reg:42;status:200;'', ''1.2.3.4:5000'')])"
proof -
  have m: "read_message ''req:42:online'' = ''req:42:online''" "read_message ''hello'' = ''hello''"
    by (simp_all add: read_message_def buffer_size_def)
  have c: "classify ''req:42:online'' = KeepAlive" "classify ''hello'' = Unrecognized"
    by (simp_all add: classify_def)
  have n: "\<forall>ev \<in> set [Datagram ''req:42:online'' ''1.2.3.4:5000'' True, ReadError,
                Datagram ''hello'' ''5.6.7.8:9'' False]. \<not> panics ev"
    by (simp add: m c handle_datagram_def handle_keepalive_def keepalive_reply_scenario)
  show ?thesis
    using server_run_progress [OF n, of "[Log LogStart]"] n
    by (simp add: m c keepalive_reply_scenario)
qed

text \<open>C15: a failed startup (ResolveUDPAddr or ListenUDP error) ends the program at once, whatever the network would deliver, with a single log entry, at level Fatal.\<close>

theorem goip_main_startup_failure:
  assumes "\<not> resolve_ok \<or> \<not> listen_ok"
  shows "goip_main resolve_ok listen_ok evs = Some (server_start resolve_ok listen_ok) \<and>
         map entry_level (logged (trace_of (server_start resolve_ok listen_ok))) = [FatalLevel]"
  using assms by (auto simp: goip_main_def server_start_def)

theorem goip_main_startup_failure_witness:
  "goip_main False True [Datagram ''req:42:online'' ''1.2.3.4:5000'' True] = Some (server_start False True) \<and>
   map entry_level (logged (trace_of (server_start False True))) = [FatalLevel]"
  using goip_main_startup_failure [of False True "[Datagram ''req:42:online'' ''1.2.3.4:5000'' True]"] by simp

end
