(* ===== verification/GoIP_Process.thy ===== *)
theory GoIP_Process
  imports GoIP_Main
begin

text \<open>
  The process around the loop of \<open>src/main.go\<close>: the UDP socket that
  \<open>net.ListenUDP\<close> opens (line 34), the call \<open>defer conn.Close()\<close> (line 38)
  and the two ways the process ends.  \<open>log.Fatal\<close> (lines 30 and 36) logs and
  calls \<open>os.Exit(1)\<close>, which runs no deferred call; the index panic of line 82
  unwinds \<open>main\<close>, running its deferred calls, and the runtime exits with
  status 2.  A process is the server state of \<open>GoIP_Server\<close> together with the
  socket, the deferred calls still pending and the exit status.  The lemmas
  show that the process refines the server loop: its socket, pending calls and
  exit status are functions of the server's state, so the socket is open
  exactly while the loop runs and is closed by the deferred call when a panic
  ends the process.
\<close>

subsection \<open>Process state\<close>

datatype sock_state = NoSocket | SockOpen | SockClosed

datatype deferred_call = DeferClose

record process =
  proc_server :: server_state
  proc_sock :: sock_state
  proc_defers :: "deferred_call list"
  proc_exit :: "nat option"

subsection \<open>Operations\<close>

text \<open>Deferred calls run most recent first; \<open>conn.Close()\<close> closes the socket.\<close>

fun run_deferred :: "deferred_call list \<Rightarrow> sock_state \<Rightarrow> sock_state" where
  "run_deferred [] sock = sock"
| "run_deferred (DeferClose # ds) sock = run_deferred ds SockClosed"

definition fatal_exit :: "process \<Rightarrow> process" where
  "fatal_exit p = p\<lparr>proc_exit := Some 1\<rparr>"

definition panic_exit :: "process \<Rightarrow> process" where
  "panic_exit p =
     p\<lparr>proc_sock := run_deferred (proc_defers p) (proc_sock p), proc_defers := [], proc_exit := Some 2\<rparr>"

definition proc_start :: "bool \<Rightarrow> bool \<Rightarrow> process" where
  "proc_start resolve_ok listen_ok =
     (let p = \<lparr>proc_server = server_start resolve_ok listen_ok, proc_sock = NoSocket,
               proc_defers = [], proc_exit = None\<rparr>
      in if \<not> resolve_ok then fatal_exit p
         else if \<not> listen_ok then fatal_exit p
         else p\<lparr>proc_sock := SockOpen, proc_defers := DeferClose # proc_defers p\<rparr>)"

definition proc_step :: "process \<Rightarrow> net_event \<Rightarrow> process" where
  "proc_step p ev =
     (if proc_exit p \<noteq> None then p
      else let p' = p\<lparr>proc_server := server_step (proc_server p) ev\<rparr>
           in if panics ev then panic_exit p' else p')"

definition proc_run :: "process \<Rightarrow> net_event list \<Rightarrow> process" where
  "proc_run p evs = foldl proc_step p evs"

subsection \<open>The process seen from the server state\<close>

fun exit_status :: "server_state \<Rightarrow> nat option" where
  "exit_status (Running t) = None"
| "exit_status (Exited PanicIndex t) = Some 2"
| "exit_status (Exited FatalResolve t) = Some 1"
| "exit_status (Exited FatalListen t) = Some 1"

fun sock_of :: "server_state \<Rightarrow> sock_state" where
  "sock_of (Running t) = SockOpen"
| "sock_of (Exited PanicIndex t) = SockClosed"
| "sock_of (Exited FatalResolve t) = NoSocket"
| "sock_of (Exited FatalListen t) = NoSocket"

fun defers_of :: "server_state \<Rightarrow> deferred_call list" where
  "defers_of (Running t) = [DeferClose]"
| "defers_of (Exited cause t) = []"

definition proc_abs :: "server_state \<Rightarrow> process" where
  "proc_abs s = \<lparr>proc_server = s, proc_sock = sock_of s, proc_defers = defers_of s, proc_exit = exit_status s\<rparr>"

subsection \<open>Lemmas\<close>

lemma proc_start_abs: "proc_start resolve_ok listen_ok = proc_abs (server_start resolve_ok listen_ok)"
  by (simp add: proc_start_def proc_abs_def server_start_def fatal_exit_def)

lemma proc_step_abs: "proc_step (proc_abs s) ev = proc_abs (server_step s ev)"
proof (cases s)
  case (Running t)
  then show ?thesis
    by (simp add: proc_step_def proc_abs_def panic_exit_def server_step_Running)
next
  case (Exited cause t)
  then show ?thesis
    by (cases cause) (simp_all add: proc_step_def proc_abs_def)
qed

lemma proc_run_abs: "proc_run (proc_abs s) evs = proc_abs (server_run s evs)"
  by (induction evs arbitrary: s) (simp_all add: proc_run_def server_run_def proc_step_abs)

text \<open>C32: the whole process, socket and deferred calls included, refines the server loop: after startup and any events, its server state is the one server_run computes, its socket is open exactly while the loop runs, closed by the deferred conn.Close() when the index panic ends the process (exit status 2), and never opened when log.Fatal ends it at startup (exit status 1, no deferred call pending).\<close>

theorem proc_run_refines:
  "proc_run (proc_start resolve_ok listen_ok) evs = proc_abs (server_run (server_start resolve_ok listen_ok) evs)"
  by (simp add: proc_start_abs proc_run_abs)

end
