(* ===== verification/Go_UTF8.thy ===== *)
theory Go_UTF8
  imports Go_Strings
begin

text \<open>
  The rune-level functions behind \<open>strings.TrimSpace\<close>, from the Go standard
  library (\<open>unicode/utf8\<close> and \<open>strings\<close>), which is not part of the
  repository: \<open>utf8.DecodeRune\<close>, \<open>utf8.DecodeLastRune\<close>, the loops
  \<open>indexFunc\<close> and \<open>lastIndexFunc\<close> behind \<open>TrimLeftFunc\<close> and
  \<open>TrimRightFunc\<close>, and \<open>TrimSpace\<close> itself with its ASCII fast path.  A
  loop over an index into a string is written as a recursion over the
  remaining suffix (\<open>for i, r := range s\<close>) or prefix (\<open>s[0:i]\<close>).

  The lemmas show that a decoded rune other than \<open>RuneError\<close> is the UTF-8
  encoding of the bytes read, that the space runes decode from their
  encodings at either end, and that Go's \<open>TrimSpace\<close> is the byte-level
  \<open>trim_space\<close> of \<open>Go_Strings\<close>, which the parser model uses.
\<close>

subsection \<open>Decoding\<close>

definition rune_error :: nat where
  "rune_error = 0xFFFD"

definition utf8_lead :: "nat \<Rightarrow> (nat \<times> nat \<times> nat) option" where
  "utf8_lead p0 =
     (if 0xC2 \<le> p0 \<and> p0 \<le> 0xDF then Some (2, 0x80, 0xBF)
      else if p0 = 0xE0 then Some (3, 0xA0, 0xBF)
      else if (0xE1 \<le> p0 \<and> p0 \<le> 0xEC) \<or> p0 = 0xEE \<or> p0 = 0xEF then Some (3, 0x80, 0xBF)
      else if p0 = 0xED then Some (3, 0x80, 0x9F)
      else if p0 = 0xF0 then Some (4, 0x90, 0xBF)
      else if 0xF1 \<le> p0 \<and> p0 \<le> 0xF3 then Some (4, 0x80, 0xBF)
      else if p0 = 0xF4 then Some (4, 0x80, 0x8F)
      else None)"

definition utf8_cont :: "nat \<Rightarrow> bool" where
  "utf8_cont b \<longleftrightarrow> 0x80 \<le> b \<and> b \<le> 0xBF"

fun decode_rune :: "go_string \<Rightarrow> nat \<times> nat" where
  "decode_rune [] = (rune_error, 0)"
| "decode_rune (c # cs) =
     (let p0 = of_char c in
      if p0 < 0x80 then (p0, 1)
      else case utf8_lead p0 of
        None \<Rightarrow> (rune_error, 1)
      | Some (sz, lo, hi) \<Rightarrow>
          if length (c # cs) < sz then (rune_error, 1)
          else let b1 = of_char (cs ! 0) in
            if b1 < lo \<or> hi < b1 then (rune_error, 1)
            else if sz \<le> 2 then ((p0 mod 0x20) * 0x40 + b1 mod 0x40, 2)
            else let b2 = of_char (cs ! 1) in
              if \<not> utf8_cont b2 then (rune_error, 1)
              else if sz \<le> 3 then ((p0 mod 0x10) * 0x1000 + (b1 mod 0x40) * 0x40 + b2 mod 0x40, 3)
              else let b3 = of_char (cs ! 2) in
                if \<not> utf8_cont b3 then (rune_error, 1)
                else ((p0 mod 0x8) * 0x40000 + (b1 mod 0x40) * 0x1000 + (b2 mod 0x40) * 0x40 + b3 mod 0x40, 4))"



text \<open>\<open>TrimLeftFunc\<close> through \<open>indexFunc(s, f, false)\<close>: the first index whose
  rune fails \<open>f\<close>, or \<open>-1\<close>; the loop variable is the suffix still to scan.\<close>

function index_func :: "(nat \<Rightarrow> bool) \<Rightarrow> bool \<Rightarrow> go_string \<Rightarrow> int" where
  "index_func f truth s =
     (if s = [] then -1
      else let (r, size) = decode_rune s in
        if f r = truth then 0
        else (let j = index_func f truth (drop size s) in if j = -1 then -1 else j + int size))"
  by pat_completeness auto
termination
proof (relation "measure (\<lambda>(f, truth, s). length s)")
  fix f truth s x r size
  assume "s \<noteq> []" and "x = decode_rune s" and "(r, size) = x"
  then have "0 < size" by (cases s) (auto simp: Let_def split: if_splits option.splits prod.splits)
  with \<open>s \<noteq> []\<close> show "((f, truth, drop size s), f, truth, s) \<in> measure (\<lambda>(f, truth, s). length s)"
    by simp
qed simp

declare index_func.simps [simp del]

definition trim_left_func :: "(nat \<Rightarrow> bool) \<Rightarrow> go_string \<Rightarrow> go_string" where
  "trim_left_func f s = (let i = index_func f False s in if i = -1 then [] else drop (nat i) s)"

text \<open>\<open>RuneStart(b)\<close>: \<open>b & 0xC0 != 0x80\<close>, bits 6 and 7 of the byte.\<close>

definition utf8_rune_start :: "nat \<Rightarrow> bool" where
  "utf8_rune_start b \<longleftrightarrow> b div 0x40 mod 4 \<noteq> 2"

text \<open>The backward scan of \<open>DecodeLastRune\<close>,
  \<open>for start--; start >= lim; start-- { if RuneStart(p[start]) { break } }\<close>
  followed by \<open>if start < 0 { start = 0 }\<close>, with \<open>k = start + 1\<close>.\<close>

function search_start :: "go_string \<Rightarrow> nat \<Rightarrow> nat \<Rightarrow> nat" where
  "search_start p lim k =
     (if k \<le> lim then k - 1
      else if utf8_rune_start (of_char (p ! (k - 1))) then k - 1
      else search_start p lim (k - 1))"
  by pat_completeness auto
termination by (relation "measure (\<lambda>(p, lim, k). k)") auto

declare search_start.simps [simp del]

definition decode_last_rune :: "go_string \<Rightarrow> nat \<times> nat" where
  "decode_last_rune p =
     (if p = [] then (rune_error, 0)
      else let end' = length p; r0 = of_char (p ! (end' - 1)) in
        if r0 < 0x80 then (r0, 1)
        else let start = search_start p (end' - 4) (end' - 1);
                 (r, size) = decode_rune (drop start p)
             in if start + size \<noteq> end' then (rune_error, 1) else (r, size))"

text \<open>\<open>lastIndexFunc(s, f, false)\<close>: the loop variable \<open>i\<close> is the prefix \<open>s[0:i]\<close>
  still to scan.\<close>

function last_index_func :: "(nat \<Rightarrow> bool) \<Rightarrow> bool \<Rightarrow> go_string \<Rightarrow> int" where
  "last_index_func f truth p =
     (if p = [] then -1
      else let (r, size) = decode_last_rune p; i = length p - size in
        if f r = truth then int i else last_index_func f truth (take i p))"
  by pat_completeness auto
termination
proof (relation "measure (\<lambda>(f, truth, p). length p)")
  fix f truth p x r size i
  assume p: "p \<noteq> []" and x: "x = decode_last_rune p" and rs: "(r, size) = x"
    and i: "i = length p - size"
  have start: "search_start q lim k \<le> k - 1" for q lim k
    by (induction q lim k rule: search_start.induct) (subst search_start.simps, auto)
  obtain r' sz' where d: "decode_rune (drop (search_start p (length p - 4) (length p - 1)) p) = (r', sz')"
    by fastforce
  have len: "0 < length p" using p by simp
  have "0 < size"
  proof (cases "of_char (p ! (length p - 1)) < (128::nat)")
    case True
    with p x rs show ?thesis by (simp add: decode_last_rune_def)
  next
    case False
    have "search_start p (length p - 4) (length p - 1) + sz' = length p \<Longrightarrow> 0 < sz'"
      using start [of p "length p - 4" "length p - 1"] len by arith
    with p x rs d False show ?thesis
      unfolding decode_last_rune_def Let_def by (auto split: if_splits)
  qed
  with p i show "((f, truth, take i p), f, truth, p) \<in> measure (\<lambda>(f, truth, p). length p)"
    by simp
qed simp

declare last_index_func.simps [simp del]

text \<open>\<open>TrimRightFunc\<close>: after \<open>lastIndexFunc\<close> the rune found is decoded again
  forwards to step over it.\<close>

definition trim_right_func :: "(nat \<Rightarrow> bool) \<Rightarrow> go_string \<Rightarrow> go_string" where
  "trim_right_func f s =
     (let i = last_index_func f False s;
          i' = (if 0 \<le> i \<and> 0x80 \<le> (of_char (s ! nat i) :: nat) then nat i + snd (decode_rune (drop (nat i) s))
                else nat (i + 1))
      in take i' s)"

definition trim_func :: "(nat \<Rightarrow> bool) \<Rightarrow> go_string \<Rightarrow> go_string" where
  "trim_func f s = trim_right_func f (trim_left_func f s)"

subsection \<open>TrimSpace\<close>

text \<open>The \<open>asciiSpace\<close> table.\<close>

definition ascii_space :: "char \<Rightarrow> bool" where
  "ascii_space c \<longleftrightarrow> c \<in> {CHR 0x09, CHR 0x0A, CHR 0x0B, CHR 0x0C, CHR 0x0D, CHR 0x20}"

text \<open>The first loop of \<open>TrimSpace\<close>: \<open>Inl\<close> is the value returned through
  \<open>TrimFunc\<close> at the first non-ASCII byte, \<open>Inr\<close> the rest \<open>s[start:]\<close>.\<close>

fun trim_space_start :: "go_string \<Rightarrow> go_string + go_string" where
  "trim_space_start [] = Inr []"
| "trim_space_start (c # cs) =
     (if 0x80 \<le> (of_char c :: nat) then Inl (trim_func is_space_rune (c # cs))
      else if ascii_space c then trim_space_start cs
      else Inr (c # cs))"

text \<open>The second loop, on \<open>s[start:stop]\<close>.\<close>

function trim_space_stop :: "go_string \<Rightarrow> go_string" where
  "trim_space_stop s =
     (if s = [] then []
      else if 0x80 \<le> (of_char (last s) :: nat) then trim_right_func is_space_rune s
      else if ascii_space (last s) then trim_space_stop (butlast s)
      else s)"
  by pat_completeness auto
termination by (relation "measure length") auto

declare trim_space_stop.simps [simp del]

definition go_trim_space :: "go_string \<Rightarrow> go_string" where
  "go_trim_space s = (case trim_space_start s of Inl r \<Rightarrow> r | Inr t \<Rightarrow> trim_space_stop t)"

subsection \<open>Decoding lemmas\<close>

lemma decode_space_all:
  "list_all (\<lambda>r. decode_rune (utf8_encode r @ t) = (r, length (utf8_encode r))) white_space_runes"
  by (simp add: white_space_runes_def upt_rec utf8_encode_def char_of_def bit_0 utf8_lead_def utf8_cont_def Let_def)

lemma decode_space:
  "r \<in> set white_space_runes \<Longrightarrow> decode_rune (utf8_encode r @ t) = (r, length (utf8_encode r))"
  using decode_space_all [of t] by (simp add: list_all_iff)

lemma div_mod_digit:
  fixes a b :: nat
  assumes "b < k"
  shows "(a * k + b) div k = a" "(a * k + b) mod k = b"
  using assms by simp_all

lemma mod_digit:
  fixes b :: nat
  shows "b < k \<Longrightarrow> (b + m * k) mod k = b"
  by simp

lemma enc2:
  assumes "0xC2 \<le> p0" "p0 \<le> 0xDF" "utf8_cont b1"
  shows "utf8_encode ((p0 mod 0x20) * 0x40 + b1 mod 0x40) = [char_of p0, char_of b1]"
proof -
  define a where "a = p0 - 0xC0"
  define b where "b = b1 - 0x80"
  have a: "p0 = a + 6 * 0x20" "2 \<le> a" "a < 0x20"
    using assms unfolding a_def by auto
  have b: "b1 = b + 2 * 0x40" "b < 0x40"
    using assms unfolding b_def utf8_cont_def by auto
  have pm: "p0 mod 0x20 = a" unfolding a(1) by (rule mod_digit) (fact a(3))
  have bm: "b1 mod 0x40 = b" unfolding b(1) by (rule mod_digit) (fact b(2))
  have r: "0x80 \<le> a * 0x40 + b" "a * 0x40 + b < 0x800" using a b by simp_all
  have p: "0xC0 + a = p0" "0x80 + b = b1" using a(1) b(1) by simp_all
  show ?thesis
    unfolding pm bm utf8_encode_def using r b(2) by (simp add: div_mod_digit [OF b(2)] p)
qed

lemma digits3:
  fixes a b c :: nat
  assumes "b < 0x40" "c < 0x40"
  shows "(a * 0x1000 + b * 0x40 + c) div 0x1000 = a" "(a * 0x1000 + b * 0x40 + c) div 0x40 mod 0x40 = b"
    "(a * 0x1000 + b * 0x40 + c) mod 0x40 = c"
proof -
  have e: "a * 0x1000 + b * 0x40 + c = (a * 0x40 + b) * 0x40 + c" by simp
  have d: "(a * 0x1000 + b * 0x40 + c) div 0x40 = a * 0x40 + b"
    unfolding e using assms(2) by (rule div_mod_digit)
  have e2: "a * 0x1000 + b * 0x40 + c = a * 0x1000 + (b * 0x40 + c)" by simp
  have "b * 0x40 + c < 0x1000" using assms by simp
  then show "(a * 0x1000 + b * 0x40 + c) div 0x1000 = a"
    unfolding e2 by (rule div_mod_digit)
  show "(a * 0x1000 + b * 0x40 + c) div 0x40 mod 0x40 = b"
    using d assms(1) by simp
  show "(a * 0x1000 + b * 0x40 + c) mod 0x40 = c"
    unfolding e using assms(2) by (rule div_mod_digit)
qed

lemma enc3:
  assumes "0xE0 \<le> p0" "p0 \<le> 0xEF" "utf8_cont b1" "utf8_cont b2" "p0 = 0xE0 \<longrightarrow> 0xA0 \<le> b1"
  shows "utf8_encode ((p0 mod 0x10) * 0x1000 + (b1 mod 0x40) * 0x40 + b2 mod 0x40) =
         [char_of p0, char_of b1, char_of b2]"
proof -
  define a where "a = p0 - 0xE0"
  define b where "b = b1 - 0x80"
  define c where "c = b2 - 0x80"
  have a: "p0 = a + 14 * 0x10" "a < 0x10" using assms unfolding a_def by auto
  have b: "b1 = b + 2 * 0x40" "b < 0x40" using assms unfolding b_def utf8_cont_def by auto
  have c: "b2 = c + 2 * 0x40" "c < 0x40" using assms unfolding c_def utf8_cont_def by auto
  have m: "p0 mod 0x10 = a" "b1 mod 0x40 = b" "b2 mod 0x40 = c"
    unfolding a(1) b(1) c(1) by (rule mod_digit, fact)+
  have r: "0x800 \<le> a * 0x1000 + b * 0x40 + c" "a * 0x1000 + b * 0x40 + c < 0x10000"
    using a b c assms(5) unfolding a_def b_def by auto
  have p: "0xE0 + a = p0" "0x80 + b = b1" "0x80 + c = b2" using a(1) b(1) c(1) by simp_all
  show ?thesis
    unfolding m utf8_encode_def using r
    by (simp add: digits3 [OF b(2) c(2)] p)
qed

lemma digits4:
  fixes a b c d :: nat
  assumes "b < 0x40" "c < 0x40" "d < 0x40"
  defines "r \<equiv> a * 0x40000 + b * 0x1000 + c * 0x40 + d"
  shows "r div 0x40000 = a" "r div 0x1000 mod 0x40 = b" "r div 0x40 mod 0x40 = c" "r mod 0x40 = d"
proof -
  have l: "b * 0x1000 + c * 0x40 + d < 0x40000" "c * 0x40 + d < 0x1000" using assms(1-3) by simp_all
  have r1: "r = a * 0x40000 + (b * 0x1000 + c * 0x40 + d)" unfolding r_def by simp
  have r2: "r = (a * 0x40 + b) * 0x1000 + (c * 0x40 + d)" unfolding r_def by simp
  have r3: "r = (a * 0x1000 + b * 0x40 + c) * 0x40 + d" unfolding r_def by simp
  show "r div 0x40000 = a" unfolding r1 using l(1) by (rule div_mod_digit)
  have "r div 0x1000 = a * 0x40 + b" unfolding r2 using l(2) by (rule div_mod_digit)
  then show "r div 0x1000 mod 0x40 = b" using assms(1) by simp
  have "r div 0x40 = a * 0x1000 + b * 0x40 + c" unfolding r3 using assms(3) by (rule div_mod_digit)
  then show "r div 0x40 mod 0x40 = c" using digits3 [OF assms(1,2), of a] by simp
  show "r mod 0x40 = d" unfolding r3 using assms(3) by (rule div_mod_digit)
qed

lemma enc4:
  assumes "0xF0 \<le> p0" "p0 \<le> 0xF4" "utf8_cont b1" "utf8_cont b2" "utf8_cont b3"
    "p0 = 0xF0 \<longrightarrow> 0x90 \<le> b1"
  shows "utf8_encode ((p0 mod 0x8) * 0x40000 + (b1 mod 0x40) * 0x1000 + (b2 mod 0x40) * 0x40 + b3 mod 0x40) =
         [char_of p0, char_of b1, char_of b2, char_of b3]"
proof -
  define a where "a = p0 - 0xF0"
  define b where "b = b1 - 0x80"
  define c where "c = b2 - 0x80"
  define d where "d = b3 - 0x80"
  have a: "p0 = a + 30 * 0x8" "a < 0x8" using assms unfolding a_def by auto
  have b: "b1 = b + 2 * 0x40" "b < 0x40" using assms unfolding b_def utf8_cont_def by auto
  have c: "b2 = c + 2 * 0x40" "c < 0x40" using assms unfolding c_def utf8_cont_def by auto
  have d: "b3 = d + 2 * 0x40" "d < 0x40" using assms unfolding d_def utf8_cont_def by auto
  have m: "p0 mod 0x8 = a" "b1 mod 0x40 = b" "b2 mod 0x40 = c" "b3 mod 0x40 = d"
    unfolding a(1) b(1) c(1) d(1) by (rule mod_digit, fact)+
  have r: "0x10000 \<le> a * 0x40000 + b * 0x1000 + c * 0x40 + d"
    using a b assms(6) unfolding a_def b_def by auto
  have p: "0xF0 + a = p0" "0x80 + b = b1" "0x80 + c = b2" "0x80 + d = b3"
    using a(1) b(1) c(1) d(1) by simp_all
  show ?thesis
    unfolding m utf8_encode_def using r
    by (simp add: digits4 [OF b(2) c(2) d(2)] p)
qed

lemma utf8_lead_Some:
  assumes "utf8_lead p0 = Some (sz, lo, hi)"
  shows "(sz = 2 \<and> 0xC2 \<le> p0 \<and> p0 \<le> 0xDF \<and> lo = 0x80 \<and> hi = 0xBF) \<or>
         (sz = 3 \<and> 0xE0 \<le> p0 \<and> p0 \<le> 0xEF \<and> 0x80 \<le> lo \<and> hi \<le> 0xBF \<and> (p0 = 0xE0 \<longrightarrow> lo = 0xA0)) \<or>
         (sz = 4 \<and> 0xF0 \<le> p0 \<and> p0 \<le> 0xF4 \<and> 0x80 \<le> lo \<and> hi \<le> 0xBF \<and> (p0 = 0xF0 \<longrightarrow> lo = 0x90))"
  using assms by (auto simp: utf8_lead_def split: if_splits)

lemma nth0_drop_decomp: "Suc 0 \<le> length xs \<Longrightarrow> xs ! 0 # drop (Suc 0) xs = xs"
  by (cases xs) auto

lemma decode_rune_valid:
  assumes "decode_rune s = (r, w)" and "r \<noteq> rune_error"
  shows "s = utf8_encode r @ drop w s \<and> w = length (utf8_encode r)"
proof (cases s)
  case Nil
  with assms show ?thesis by simp
next
  case (Cons c cs)
  define p0 :: nat where "p0 = of_char c"
  show ?thesis
  proof (cases "p0 < 0x80")
    case True
    with assms Cons show ?thesis by (auto simp: p0_def utf8_encode_def)
  next
    case False
    then obtain sz lo hi where lead: "utf8_lead p0 = Some (sz, lo, hi)"
      using assms Cons by (cases "utf8_lead p0") (auto simp: p0_def)
    note cases = utf8_lead_Some [OF lead]
    from False lead assms Cons have len: "sz \<le> Suc (length cs)"
      by (auto simp: p0_def Let_def split: if_splits)
    have cp: "char_of p0 = c" by (simp add: p0_def)
    have l1: "Suc 0 \<le> length cs" using len cases by auto
    show ?thesis
      using False lead assms Cons cases len l1
      by (auto simp: p0_def [symmetric] Let_def utf8_cont_def enc2 enc3 enc4 cp Cons_nth_drop_Suc nth0_drop_decomp
                     numeral_2_eq_2 numeral_3_eq_3 split: if_splits)
  qed
qed

lemma decode_rune_size: "s \<noteq> [] \<Longrightarrow> 0 < snd (decode_rune s) \<and> snd (decode_rune s) \<le> length s"
  by (cases s) (auto simp: Let_def utf8_lead_def Suc_le_eq split: if_splits option.splits prod.splits)

subsection \<open>\<open>TrimLeftFunc\<close> on the space runes\<close>

lemma index_func_range: "index_func f t s = -1 \<or> 0 \<le> index_func f t s"
proof (induction "length s" arbitrary: s rule: less_induct)
  case less
  show ?case
  proof (cases "s = []")
    case False
    obtain r size where d: "decode_rune s = (r, size)" by fastforce
    with False decode_rune_size [of s] have "length (drop size s) < length s" by simp
    then have "index_func f t (drop size s) = -1 \<or> 0 \<le> index_func f t (drop size s)"
      by (rule less)
    with d False show ?thesis using index_func.simps [of f t s] by (auto simp: Let_def)
  qed (simp add: index_func.simps)
qed

lemma trim_left_func_rec:
  "trim_left_func f s =
     (if s = [] then [] else let (r, size) = decode_rune s in if f r then trim_left_func f (drop size s) else s)"
proof (cases "s = []")
  case False
  obtain r size where d: "decode_rune s = (r, size)" by fastforce
  have "nat (j + int size) = nat j + size" if "0 \<le> j" for j using that by simp
  then show ?thesis
    using False d index_func_range [of f False "drop size s"]
    by (subst trim_left_func_def, subst index_func.simps) (auto simp: Let_def trim_left_func_def)
qed (simp add: trim_left_func_def index_func.simps)

lemma space_encoding_rune:
  "e \<in> set go_space_encodings \<longleftrightarrow> (\<exists>r. is_space_rune r \<and> e = utf8_encode r)"
  by (auto simp: go_space_encodings_is_space)

lemma is_space_not_error: "is_space_rune r \<Longrightarrow> r \<noteq> rune_error"
  by (auto simp: is_space_rune_def rune_error_def split: if_splits)

lemma decode_space_prefix:
  assumes "e \<in> set go_space_encodings" and "has_prefix s e"
  shows "\<exists>r. is_space_rune r \<and> e = utf8_encode r \<and> decode_rune s = (r, length e)"
proof -
  obtain r where r: "is_space_rune r" "e = utf8_encode r" using assms(1) space_encoding_rune by blast
  obtain t where "s = e @ t" using assms(2) by (auto simp: has_prefix_iff)
  with r show ?thesis by (auto simp: decode_space white_space_runes_iff)
qed

lemma trim_left_space_step:
  assumes "e \<in> set go_space_encodings" and "has_prefix s e"
  shows "trim_left_space s = trim_left_space (drop (length e) s)"
proof (cases "find (has_prefix s) go_space_encodings")
  case None
  then have "\<not> has_prefix s e" using assms(1) by (rule find_None_not)
  with assms(2) show ?thesis by contradiction
next
  case (Some e')
  then have e': "e' \<in> set go_space_encodings" "has_prefix s e'" by (auto dest: find_Some_mem)
  obtain r where r: "e = utf8_encode r" "decode_rune s = (r, length e)"
    using decode_space_prefix [OF assms] by blast
  obtain r' where r': "e' = utf8_encode r'" "decode_rune s = (r', length e')"
    using decode_space_prefix [OF e'] by blast
  from r(2) r'(2) have "r' = r" by simp
  with r r' have "e' = e" by simp
  with Some show ?thesis by (simp add: trim_left_space.simps)
qed

lemma trim_left_space_stop:
  assumes "\<not> is_space_rune (fst (decode_rune s))"
  shows "trim_left_space s = s"
proof -
  have "find (has_prefix s) go_space_encodings = None"
  proof (rule ccontr)
    assume "find (has_prefix s) go_space_encodings \<noteq> None"
    then obtain e where "e \<in> set go_space_encodings" "has_prefix s e" by (auto dest: find_Some_mem)
    with assms show False using decode_space_prefix by fastforce
  qed
  then show ?thesis by (rule trim_left_space_id)
qed

lemma trim_left_func_space: "trim_left_func is_space_rune s = trim_left_space s"
proof (induction "length s" arbitrary: s rule: less_induct)
  case less
  show ?case
  proof (cases "s = []")
    case True
    then show ?thesis by (simp add: trim_left_func_rec trim_left_space_id find_None_iff has_prefix_iff)
  next
    case False
    obtain r size where d: "decode_rune s = (r, size)" by fastforce
    show ?thesis
    proof (cases "is_space_rune r")
      case True
      have "s = utf8_encode r @ drop size s" "size = length (utf8_encode r)"
        using decode_rune_valid [OF d is_space_not_error [OF True]] by auto
      then have "utf8_encode r \<in> set go_space_encodings" "has_prefix s (utf8_encode r)"
        using True space_encoding_rune by (auto simp: has_prefix_iff)
      then have "trim_left_space s = trim_left_space (drop size s)"
        using \<open>size = length (utf8_encode r)\<close> by (simp add: trim_left_space_step)
      moreover have "length (drop size s) < length s" using False decode_rune_size [of s] d by simp
      ultimately show ?thesis using less True False d by (simp add: trim_left_func_rec [of _ s])
    next
      case False
      with \<open>s \<noteq> []\<close> d show ?thesis by (simp add: trim_left_func_rec [of _ s] trim_left_space_stop)
    qed
  qed
qed

subsection \<open>\<open>DecodeLastRune\<close>\<close>

lemma space_encoding_shape:
  assumes "e \<in> set go_space_encodings"
  shows "(\<exists>x. e = [x] \<and> ascii_space x \<and> of_char x < (0x80::nat)) \<or>
         (\<exists>x y. e = [x, y] \<and> utf8_rune_start (of_char x) \<and> utf8_cont (of_char y)) \<or>
         (\<exists>x y z. e = [x, y, z] \<and> utf8_rune_start (of_char x) \<and> utf8_cont (of_char y) \<and>
                  utf8_cont (of_char z))"
  using assms unfolding go_space_encodings_bytes
  by (simp only: set_simps insert_iff empty_iff) (elim disjE; simp add: ascii_space_def utf8_cont_def utf8_rune_start_def)

lemma cont_not_start: "utf8_cont b \<Longrightarrow> \<not> utf8_rune_start b"
proof -
  assume "utf8_cont b"
  then have "b div 0x40 = 2" unfolding utf8_cont_def by auto
  then show ?thesis by (simp add: utf8_rune_start_def)
qed

lemma decode_last_rune_space:
  assumes "e \<in> set go_space_encodings"
  shows "decode_last_rune (t @ e) = decode_rune e"
  using space_encoding_shape [OF assms]
proof (elim disjE exE conjE)
  fix x assume e: "e = [x]" and "of_char x < (0x80::nat)"
  then show ?thesis by (simp add: decode_last_rune_def)
next
  fix x y assume e: "e = [x, y]" and x: "utf8_rune_start (of_char x)" and y: "utf8_cont (of_char y)"
  have "\<not> of_char y < (0x80::nat)" using y by (simp add: utf8_cont_def)
  moreover have "search_start (t @ e) (length t + 2 - 4) (Suc (length t)) = length t"
    using x e by (subst search_start.simps) (simp add: nth_append)
  moreover obtain r0 where "decode_rune e = (r0, 2)"
    using decode_space_prefix [OF assms, of e] e by (auto simp: has_prefix_iff)
  ultimately show ?thesis using e
    by (auto simp: decode_last_rune_def Let_def nth_append simp del: decode_rune.simps split: prod.split)
next
  fix x y z assume e: "e = [x, y, z]" and x: "utf8_rune_start (of_char x)" and y: "utf8_cont (of_char y)"
    and z: "utf8_cont (of_char z)"
  have "\<not> of_char z < (0x80::nat)" using z by (simp add: utf8_cont_def)
  moreover have "search_start (t @ e) (length t + 3 - 4) (Suc (Suc (length t))) = length t"
    using x y e cont_not_start [OF y]
    by (subst search_start.simps, simp add: nth_append, subst search_start.simps, simp add: nth_append)
  moreover obtain r0 where "decode_rune e = (r0, 3)"
    using decode_space_prefix [OF assms, of e] e by (auto simp: has_prefix_iff)
  ultimately show ?thesis using e
    by (auto simp: decode_last_rune_def Let_def nth_append simp del: decode_rune.simps split: prod.split)
qed

lemma search_start_le: "search_start p lim k \<le> k - 1"
  by (induction p lim k rule: search_start.induct) (subst search_start.simps, auto)

lemma decode_last_rune_cases:
  assumes "decode_last_rune p = (r, w)" and "p \<noteq> []"
  obtains (ascii) "of_char (last p) < (0x80::nat)" "r = of_char (last p)" "w = 1"
  | (error) "\<not> of_char (last p) < (0x80::nat)" "r = rune_error" "w = 1"
  | (valid) "\<not> of_char (last p) < (0x80::nat)" "length p - w < length p" "w \<le> length p"
      "decode_rune (drop (length p - w) p) = (r, w)"
proof (cases "of_char (last p) < (0x80::nat)")
  case True
  have "decode_last_rune p = (of_char (last p), 1)"
    using assms(2) True by (simp add: decode_last_rune_def last_conv_nth)
  with assms(1) have "r = of_char (last p)" "w = 1" by simp_all
  with True show ?thesis by (rule that(1))
next
  case False
  let ?st = "search_start p (length p - 4) (length p - 1)"
  have last: "p ! (length p - 1) = last p" using assms(2) by (simp add: last_conv_nth)
  obtain r' w' where d: "decode_rune (drop ?st p) = (r', w')" by fastforce
  have le: "?st \<le> length p - 1 - 1" by (rule search_start_le)
  have len: "0 < length p" using assms(2) by simp
  show ?thesis
  proof (cases "?st + w' = length p")
    case True
    have "decode_last_rune p = (r', w')"
      using assms(2) d False True by (simp add: decode_last_rune_def Let_def last_conv_nth)
    with assms(1) have rw: "r = r'" "w = w'" by simp_all
    have "length p - w = ?st" "length p - w < length p" "w \<le> length p"
      using True le len rw by arith+
    with d rw False show ?thesis by (intro that(3)) simp_all
  next
    case False': False
    have "decode_last_rune p = (rune_error, 1)"
      using assms(2) d False False' by (simp add: decode_last_rune_def Let_def last_conv_nth)
    with assms(1) have "r = rune_error" "w = 1" by simp_all
    with False show ?thesis by (rule that(2))
  qed
qed

lemma decode_last_rune_valid:
  assumes "decode_last_rune p = (r, w)" and "r \<noteq> rune_error"
  shows "\<exists>t. p = t @ utf8_encode r \<and> w = length (utf8_encode r)"
proof -
  have p: "p \<noteq> []" using assms by (auto simp: decode_last_rune_def)
  from assms(1) p show ?thesis
  proof (cases rule: decode_last_rune_cases)
    case ascii
    then have "utf8_encode r = [last p]" by (simp add: utf8_encode_def)
    moreover have "p = butlast p @ [last p]" using p by simp
    ultimately show ?thesis using ascii(3) by auto
  next
    case error
    with assms(2) show ?thesis by simp
  next
    case valid
    let ?u = "drop (length p - w) p"
    have "?u = utf8_encode r @ drop w ?u" "w = length (utf8_encode r)"
      using decode_rune_valid [OF valid(4) assms(2)] by auto
    moreover have "length ?u = w" using valid(3) by simp
    ultimately have "?u = utf8_encode r" by simp
    moreover have "p = take (length p - w) p @ ?u" by simp
    ultimately have "p = take (length p - w) p @ utf8_encode r" by simp
    with \<open>w = length (utf8_encode r)\<close> show ?thesis by blast
  qed
qed

lemma decode_single_high: "\<not> of_char c < (0x80::nat) \<Longrightarrow> snd (decode_rune [c]) = 1"
  by (auto simp: Let_def utf8_lead_def split: option.split)

text \<open>\<open>TrimRightFunc\<close> steps exactly over the rune \<open>DecodeLastRune\<close> found.\<close>

lemma redecode_width:
  assumes "decode_last_rune p = (r, w)" and "p \<noteq> []"
  shows "(if 0x80 \<le> (of_char (p ! (length p - w)) :: nat)
          then length p - w + snd (decode_rune (drop (length p - w) p)) else length p - w + 1) = length p"
  using assms(1,2)
proof (cases rule: decode_last_rune_cases)
  case ascii
  with assms(2) show ?thesis by (simp add: last_conv_nth)
next
  case error
  have "drop (length p - 1) p = [last p]" using assms(2)
    by (metis append_butlast_last_id append_eq_conv_conj length_butlast)
  with error assms(2) decode_single_high [of "last p"] show ?thesis by (simp add: last_conv_nth)
next
  case valid
  let ?u = "drop (length p - w) p"
  have u: "?u = p ! (length p - w) # drop (Suc (length p - w)) p"
    using valid(2) by (simp add: Cons_nth_drop_Suc)
  show ?thesis
  proof (cases "0x80 \<le> (of_char (p ! (length p - w)) :: nat)")
    case True
    with valid show ?thesis by simp
  next
    case False
    then have "w = 1" using valid(4) u by (simp add: Let_def)
    with valid show ?thesis by simp
  qed
qed

lemma utf8_lead_range:
  "utf8_lead p0 = Some (sz, lo, hi) \<Longrightarrow> 2 \<le> sz \<and> sz \<le> 4 \<and> 0x80 \<le> lo \<and> hi \<le> 0xBF"
  by (auto simp: utf8_lead_def split: if_splits)

lemma decode_rune_append_noncont:
  assumes "u \<noteq> []" and x: "\<not> utf8_cont (of_char x)"
  shows "decode_rune (u @ x # v) = decode_rune u"
proof -
  obtain c cs where u: "u = c # cs" using assms(1) by (cases u) auto
  show ?thesis
  proof (cases "of_char c < (0x80::nat)")
    case True
    then show ?thesis by (simp add: u Let_def)
  next
    case high: False
    show ?thesis
    proof (cases "utf8_lead (of_char c)")
      case None
      with u show ?thesis by (simp add: Let_def)
    next
      case (Some a)
      then obtain sz lo hi where lead: "utf8_lead (of_char c) = Some (sz, lo, hi)" by (cases a) auto
      have rng: "2 \<le> sz" "sz \<le> 4" "0x80 \<le> lo" "hi \<le> 0xBF" using utf8_lead_range [OF lead] by auto
      have xb: "of_char x < lo \<or> hi < (of_char x :: nat)" using x rng(3,4) by (auto simp: utf8_cont_def)
      consider "cs = []" | a where "cs = [a]" | a b where "cs = [a, b]" | a b d rest where "cs = a # b # d # rest"
        by (metis list.exhaust)
      then show ?thesis
      proof cases
        case 1
        then show ?thesis using u high lead rng xb by (simp add: Let_def)
      next
        case (2 a)
        then show ?thesis using u high lead rng x by (simp add: Let_def)
      next
        case (3 a b)
        then show ?thesis using u high lead rng x by (simp add: Let_def)
      next
        case (4 a b d rest)
        then show ?thesis using u high lead rng(2) by (simp add: Let_def)
      qed
    qed
  qed
qed

lemma decode_last_rune_width:
  assumes "p \<noteq> []" shows "0 < snd (decode_last_rune p) \<and> snd (decode_last_rune p) \<le> length p"
proof -
  obtain r w where d: "decode_last_rune p = (r, w)" by fastforce
  from d assms show ?thesis
    by (cases rule: decode_last_rune_cases) (use assms in \<open>auto simp: d Suc_le_eq\<close>)
qed

subsection \<open>\<open>TrimRightFunc\<close> on the space runes\<close>

lemma last_index_func_range:
  "last_index_func f t p = -1 \<or> (0 \<le> last_index_func f t p \<and> nat (last_index_func f t p) < length p)"
proof (induction "length p" arbitrary: p rule: less_induct)
  case less
  show ?case
  proof (cases "p = []")
    case True
    then show ?thesis by (simp add: last_index_func.simps [of f t "[]"])
  next
    case False
    obtain r w where d: "decode_last_rune p = (r, w)" by fastforce
    have w: "0 < w" "w \<le> length p" using decode_last_rune_width [OF False] d by auto
    have ih: "last_index_func f t (take (length p - w) p) = -1 \<or>
        (0 \<le> last_index_func f t (take (length p - w) p) \<and>
         nat (last_index_func f t (take (length p - w) p)) < length p - w)"
      using less [of "take (length p - w) p"] w by simp
    show ?thesis
      using False d w ih by (auto simp: last_index_func.simps [of f t p] Let_def)
  qed
qed

lemma has_suffix_decomp: "has_suffix s e \<Longrightarrow> s = take (length s - length e) s @ e"
  by (simp add: has_suffix_def) (metis append_take_drop_id)

lemma space_decode_self:
  assumes "e \<in> set go_space_encodings"
  shows "\<exists>r. is_space_rune r \<and> e = utf8_encode r \<and> decode_rune e = (r, length e)"
  using decode_space_prefix [OF assms, of e] by (simp add: has_prefix_iff)

lemma trim_right_space_step:
  assumes e: "e \<in> set go_space_encodings"
  shows "trim_right_space (t @ e) = trim_right_space t"
proof (cases "find (has_suffix (t @ e)) go_space_encodings")
  case None
  then have "\<not> has_suffix (t @ e) e" using e by (simp add: find_None_iff)
  then show ?thesis by (simp add: has_suffix_def)
next
  case (Some e')
  then have e': "e' \<in> set go_space_encodings" "has_suffix (t @ e) e'" by (auto dest: find_Some_mem)
  let ?t' = "take (length (t @ e) - length e') (t @ e)"
  have "decode_rune e' = decode_last_rune (?t' @ e')" by (rule decode_last_rune_space [OF e'(1), symmetric])
  also have "?t' @ e' = t @ e" by (rule has_suffix_decomp [OF e'(2), symmetric])
  also have "decode_last_rune (t @ e) = decode_rune e" using decode_last_rune_space [OF e] .
  finally have same: "decode_rune e' = decode_rune e" .
  obtain r where r: "e = utf8_encode r" "decode_rune e = (r, length e)" using space_decode_self [OF e] by blast
  obtain r' where r': "e' = utf8_encode r'" "decode_rune e' = (r', length e')" using space_decode_self [OF e'(1)] by blast
  have "e' = e" using same r r' by simp
  with Some show ?thesis by (simp add: trim_right_space.simps [of "t @ e"])
qed

lemma trim_right_space_stop:
  assumes "\<not> is_space_rune (fst (decode_last_rune p))"
  shows "trim_right_space p = p"
proof (rule trim_right_space_id)
  show "find (has_suffix p) go_space_encodings = None"
  proof (rule ccontr)
    assume "find (has_suffix p) go_space_encodings \<noteq> None"
    then obtain e where e: "e \<in> set go_space_encodings" "has_suffix p e"
      by (auto dest: find_Some_mem)
    have "decode_last_rune p = decode_rune e"
      using decode_last_rune_space [OF e(1), of "take (length p - length e) p"] has_suffix_decomp [OF e(2)] by simp
    with space_decode_self [OF e(1)] assms show False by auto
  qed
qed

lemma space_encoding_head:
  assumes "e \<in> set go_space_encodings"
  shows "\<exists>x v. e = x # v \<and> \<not> utf8_cont (of_char x)"
  using space_encoding_shape [OF assms]
proof (elim disjE exE conjE)
  fix x assume "e = [x]" "of_char x < (0x80::nat)"
  then show ?thesis by (auto simp: utf8_cont_def)
next
  fix x y assume "e = [x, y]" "utf8_rune_start (of_char x)"
  then show ?thesis by (blast dest: cont_not_start)
next
  fix x y z assume "e = [x, y, z]" "utf8_rune_start (of_char x)"
  then show ?thesis by (blast dest: cont_not_start)
qed

lemma last_index_func_append_space:
  assumes e: "e \<in> set go_space_encodings"
  shows "last_index_func is_space_rune False (t @ e) = last_index_func is_space_rune False t"
proof -
  obtain r where r: "is_space_rune r" "decode_rune e = (r, length e)" using space_decode_self [OF e] by blast
  have "decode_last_rune (t @ e) = (r, length e)" using decode_last_rune_space [OF e] r(2) by simp
  moreover have "e \<noteq> []" using go_space_encodings_nonempty e by blast
  ultimately show ?thesis using r(1) by (simp add: last_index_func.simps [of _ _ "t @ e"])
qed

lemma trim_right_func_append_space:
  assumes e: "e \<in> set go_space_encodings"
  shows "trim_right_func is_space_rune (t @ e) = trim_right_func is_space_rune t"
proof -
  let ?j = "last_index_func is_space_rune False t"
  have li: "last_index_func is_space_rune False (t @ e) = ?j" by (rule last_index_func_append_space [OF e])
  obtain x v where xv: "e = x # v" "\<not> utf8_cont (of_char x)" using space_encoding_head [OF e] by blast
  show ?thesis
  proof (cases "?j = -1")
    case True
    then show ?thesis by (simp add: trim_right_func_def li)
  next
    case False
    then have j: "0 \<le> ?j" "nat ?j < length t" using last_index_func_range [of is_space_rune False t] by auto
    have nth: "(t @ e) ! nat ?j = t ! nat ?j" using j(2) by (simp add: nth_append)
    have dr: "decode_rune (drop (nat ?j) t @ e) = decode_rune (drop (nat ?j) t)"
      unfolding xv(1) by (rule decode_rune_append_noncont) (use j(2) xv(2) in simp_all)
    have sz: "snd (decode_rune (drop (nat ?j) t)) \<le> length t - nat ?j"
      using decode_rune_size [of "drop (nat ?j) t"] j(2) by simp
    show ?thesis
      using False j sz unfolding trim_right_func_def Let_def
      by (simp add: li nth dr)
  qed
qed

lemma trim_right_func_stop:
  assumes "p \<noteq> []" and d: "decode_last_rune p = (r, w)" and "\<not> is_space_rune r"
  shows "trim_right_func is_space_rune p = p"
proof -
  have li: "last_index_func is_space_rune False p = int (length p - w)"
    using assms by (simp add: last_index_func.simps [of _ _ p])
  have i': "(if 0 \<le> int (length p - w) \<and> 0x80 \<le> (of_char (p ! nat (int (length p - w))) :: nat)
             then nat (int (length p - w)) + snd (decode_rune (drop (nat (int (length p - w))) p))
             else nat (int (length p - w) + 1)) = length p"
    using redecode_width [OF d assms(1)] by (simp add: nat_add_distrib split: if_splits)
  show ?thesis unfolding trim_right_func_def Let_def li i' by simp
qed

lemma trim_right_func_space: "trim_right_func is_space_rune p = trim_right_space p"
proof (induction "length p" arbitrary: p rule: less_induct)
  case less
  show ?case
  proof (cases "p = []")
    case True
    have "trim_right_space [] = []"
      by (rule trim_right_space_id) (auto simp: find_None_iff has_suffix_def)
    with True show ?thesis by (simp add: trim_right_func_def last_index_func.simps [of _ _ "[]"])
  next
    case False
    obtain r w where d: "decode_last_rune p = (r, w)" by fastforce
    show ?thesis
    proof (cases "is_space_rune r")
      case True
      then obtain t where t: "p = t @ utf8_encode r"
        using decode_last_rune_valid [OF d is_space_not_error [OF True]] by blast
      have e: "utf8_encode r \<in> set go_space_encodings" using True space_encoding_rune by blast
      have "utf8_encode r \<noteq> []"
      proof
        assume "utf8_encode r = []"
        with e show False by simp
      qed
      then have "length t < length p" by (simp add: t)
      then have "trim_right_func is_space_rune t = trim_right_space t" by (rule less)
      then show ?thesis
        unfolding t trim_right_func_append_space [OF e] trim_right_space_step [OF e] .
    next
      case False
      with \<open>p \<noteq> []\<close> d show ?thesis
        by (simp add: trim_right_func_stop trim_right_space_stop)
    qed
  qed
qed

subsection \<open>\<open>TrimSpace\<close> is the byte-level trim\<close>

lemma ascii_space_iff: "ascii_space c \<longleftrightarrow> (of_char c :: nat) \<in> {9, 10, 11, 12, 13, 32}"
proof
  assume "ascii_space c"
  then show "(of_char c :: nat) \<in> {9, 10, 11, 12, 13, 32}" by (auto simp: ascii_space_def)
next
  assume a: "(of_char c :: nat) \<in> {9, 10, 11, 12, 13, 32}"
  have "c = char_of (of_char c :: nat)" by simp
  also have "\<dots> \<in> char_of ` {9, 10, 11, 12, 13, 32 :: nat}" using a by blast
  finally show "ascii_space c" unfolding ascii_space_def by (simp add: char_of_def bit_0)
qed

lemma ascii_is_space:
  "(of_char c :: nat) < 0x80 \<Longrightarrow> is_space_rune (of_char c) \<longleftrightarrow> ascii_space c"
  by (auto simp: ascii_space_iff is_space_rune_def)

lemma ascii_space_encoding: "ascii_space c \<Longrightarrow> [c] \<in> set go_space_encodings"
  by (auto simp: ascii_space_def go_space_encodings_bytes)

lemma ascii_space_low: "ascii_space c \<Longrightarrow> (of_char c :: nat) < 0x80"
  by (auto simp: ascii_space_iff)

lemma decode_last_rune_ascii:
  "p \<noteq> [] \<Longrightarrow> (of_char (last p) :: nat) < 0x80 \<Longrightarrow> decode_last_rune p = (of_char (last p), 1)"
  by (simp add: decode_last_rune_def last_conv_nth)

lemma trim_space_stop_right: "trim_space_stop t = trim_right_space t"
proof (induction t rule: trim_space_stop.induct)
  case (1 s)
  show ?case
  proof (cases "s = []")
    case True
    have "trim_right_space [] = []"
      by (rule trim_right_space_id) (auto simp: find_None_iff has_suffix_def)
    with True show ?thesis by (simp add: trim_space_stop.simps [of "[]"])
  next
    case ne: False
    show ?thesis
    proof (cases "0x80 \<le> (of_char (last s) :: nat)")
      case True
      with ne show ?thesis by (simp add: trim_space_stop.simps [of s] trim_right_func_space)
    next
      case low: False
      show ?thesis
      proof (cases "ascii_space (last s)")
        case True
        have "s = butlast s @ [last s]" using ne by simp
        then have "trim_right_space s = trim_right_space (butlast s)"
          using trim_right_space_step [OF ascii_space_encoding [OF True], of "butlast s"] by simp
        with ne low True "1.IH" show ?thesis by (simp add: trim_space_stop.simps [of s])
      next
        case False
        have "\<not> is_space_rune (fst (decode_last_rune s))"
          using ne low False by (simp add: decode_last_rune_ascii ascii_is_space)
        with ne low False show ?thesis by (simp add: trim_space_stop.simps [of s] trim_right_space_stop)
      qed
    qed
  qed
qed

lemma trim_func_space: "trim_func is_space_rune s = trim_space s"
  by (simp add: trim_func_def trim_left_func_space trim_right_func_space trim_space_def)

lemma trim_space_start_cases:
  "(case trim_space_start s of Inl r \<Rightarrow> r = trim_space s | Inr t \<Rightarrow> t = trim_left_space s)"
proof (induction s rule: trim_space_start.induct)
  case 1
  have "trim_left_space [] = []"
    by (rule trim_left_space_stop) (use is_space_not_error in auto)
  then show ?case by simp
next
  case (2 c cs)
  show ?case
  proof (cases "0x80 \<le> (of_char c :: nat)")
    case True
    then show ?thesis by (simp add: trim_func_space)
  next
    case low: False
    show ?thesis
    proof (cases "ascii_space c")
      case True
      have "trim_left_space (c # cs) = trim_left_space cs"
        using trim_left_space_step [OF ascii_space_encoding [OF True], of "c # cs"] by simp
      with low True "2.IH" show ?thesis
        by (cases "trim_space_start cs") (simp_all add: trim_space_def)
    next
      case False
      have "\<not> is_space_rune (fst (decode_rune (c # cs)))"
        using low False by (simp add: ascii_is_space)
      then have "trim_left_space (c # cs) = c # cs" by (rule trim_left_space_stop)
      with low False show ?thesis by simp
    qed
  qed
qed

lemma go_trim_space_eq: "go_trim_space s = trim_space s"
  using trim_space_start_cases [of s]
  by (cases "trim_space_start s") (simp_all add: go_trim_space_def trim_space_stop_right trim_space_def)

subsection \<open>Padding with a space rune\<close>

text \<open>A space encoding added at either end of a string does not change what
  \<open>TrimSpace\<close> returns, and no space encoding contains the byte \<open>:\<close>.\<close>

lemma trim_left_space_append_space:
  assumes e: "e \<in> set go_space_encodings"
  shows "trim_left_space (y @ e) = (if trim_left_space y = [] then [] else trim_left_space y @ e)"
proof (induction y rule: trim_left_space.induct)
  case (1 y)
  show ?case
  proof (cases "find (has_prefix y) go_space_encodings")
    case (Some e')
    then have e': "e' \<in> set go_space_encodings" "has_prefix y e'" by (auto dest: find_Some_mem)
    have len: "length e' \<le> length y" using has_prefix_length [OF e'(2)] .
    have "trim_left_space (y @ e) = trim_left_space (drop (length e') (y @ e))"
      using trim_left_space_step [OF e'(1) has_prefix_append_right [OF e'(2)]] .
    also have "\<dots> = trim_left_space (drop (length e') y @ e)" using len by simp
    finally show ?thesis
      using "1.IH" [OF Some] trim_left_space_step [OF e'] by simp
  next
    case None
    then have id: "trim_left_space y = y" by (rule trim_left_space_id)
    show ?thesis
    proof (cases "y = []")
      case True
      have "trim_left_space e = trim_left_space []"
        using trim_left_space_step [OF e, of e] by (simp add: has_prefix_iff)
      with True id show ?thesis by simp
    next
      case False
      obtain x v where xv: "e = x # v" "\<not> utf8_cont (of_char x)" using space_encoding_head [OF e] by blast
      have dec: "decode_rune (y @ e) = decode_rune y"
        unfolding xv(1) using False xv(2) by (rule decode_rune_append_noncont)
      have "\<not> is_space_rune (fst (decode_rune y))"
      proof
        assume sp: "is_space_rune (fst (decode_rune y))"
        obtain r w where d: "decode_rune y = (r, w)" by fastforce
        with sp have r: "is_space_rune r" by simp
        have "y = utf8_encode r @ drop w y"
          using decode_rune_valid [OF d is_space_not_error [OF r]] by blast
        then have "has_prefix y (utf8_encode r)" by (metis has_prefix_iff)
        moreover have "utf8_encode r \<in> set go_space_encodings" using r space_encoding_rune by blast
        ultimately show False using None by (simp add: find_None_iff)
      qed
      then have "trim_left_space (y @ e) = y @ e" by (intro trim_left_space_stop) (simp add: dec)
      with False id show ?thesis by simp
    qed
  qed
qed

lemma trim_space_pad:
  assumes "e \<in> set go_space_encodings"
  shows "trim_space (e @ s @ e) = trim_space s"
proof -
  have r0: "trim_right_space [] = []"
    by (rule trim_right_space_id) (auto simp: find_None_iff has_suffix_def)
  have "trim_left_space (e @ s @ e) = trim_left_space (s @ e)"
    using trim_left_space_step [OF assms, of "e @ s @ e"] by (simp add: has_prefix_iff)
  then show ?thesis
    using trim_left_space_append_space [OF assms, of s] trim_right_space_step [OF assms]
    by (simp add: trim_space_def r0)
qed

lemma space_encodings_colon_free: "list_all (\<lambda>e. CHR '':'' \<notin> set e) go_space_encodings"
  by (simp add: go_space_encodings_bytes)

lemma space_encoding_colon: "e \<in> set go_space_encodings \<Longrightarrow> CHR '':'' \<notin> set e"
  using space_encodings_colon_free by (simp add: list_all_iff)

end
