(* ===== verification/Spec2Isabelle.thy ===== *)
theory Spec2Isabelle
  imports GoIP_Process Go_UTF8
begin

text \<open>
  \<^bold>\<open>GoIP SMS server (src/main.go), verified model.\<close>

  The program is one Go file.  \<open>main\<close> binds a UDP socket on \<open>0.0.0.0:44444\<close>
  and loops: it reads a datagram into a 2048-byte buffer, logs it, and
  dispatches on its prefix.  A datagram starting with \<open>RECEIVE:\<close> (an SMS
  delivery notification) goes to \<open>parseGoIPMessage\<close>, which fills the
  \<open>GoIPMessage\<close> struct from \<open>key:value\<close> fields separated by \<open>;\<close>, and the
  result is logged.  A datagram starting with \<open>req\<close> (a keep-alive) has every
  \<open>:\<close> replaced by \<open>;\<close>, is read as one CSV record with \<open>encoding/csv\<close>, and
  \<open>reg:<field 1>;status:200;\<close> is sent back to the sender.  Anything else is only
  logged.  The components share nothing but the datagram; errors are logged and
  the loop continues, except for the index panic of the keep-alive branch.

  \<^bold>\<open>Theories.\<close>
  \<^item> \<open>Prelude\<close>: type names (\<open>go_string\<close> is a byte string, \<open>udp_addr\<close>), the
    control characters, the rule collections \<open>go_simps\<close> (evaluation of the
    library functions on concrete strings) and generic list/option/sum lemmas.
  \<^item> \<open>Go_Strings\<close>: the \<open>strings\<close> functions the code calls (\<open>HasPrefix\<close>,
    \<open>Index\<close>, \<open>Split\<close>, \<open>SplitN\<close>, \<open>ReplaceAll\<close>, \<open>TrimSpace\<close>), modelled from
    their documentation since the standard library is not part of the
    repository.  \<open>unicode.IsSpace\<close> is \<open>is_space_rune\<close>, and TrimSpace drops the
    UTF-8 encodings (\<open>utf8_encode\<close>) of exactly those runes
    (\<open>go_space_encodings_is_space\<close>).  Lemmas: Split/Join round trips, the
    characterisation of Index and SplitN, and that TrimSpace yields an
    idempotent, white-space-free substring.
  \<^item> \<open>Go_UTF8\<close>: \<open>TrimSpace\<close> as the library computes it, on runes:
    \<open>utf8.DecodeRune\<close> (\<open>decode_rune\<close>, with the \<open>first\<close>/\<open>acceptRanges\<close> tables
    as \<open>utf8_lead\<close>), \<open>utf8.DecodeLastRune\<close> (\<open>decode_last_rune\<close> with its
    backward scan \<open>search_start\<close>), \<open>indexFunc\<close>/\<open>lastIndexFunc\<close> and
    \<open>TrimLeftFunc\<close>/\<open>TrimRightFunc\<close>/\<open>TrimFunc\<close>, and \<open>TrimSpace\<close> itself
    (\<open>go_trim_space\<close>: the \<open>asciiSpace\<close> fast path, \<open>trim_space_start\<close> and
    \<open>trim_space_stop\<close>, falling back to \<open>TrimFunc(s, unicode.IsSpace)\<close> at the
    first non-ASCII byte).  Lemmas: a decoded rune other than \<open>RuneError\<close> is the
    encoding of the bytes read, forwards and backwards; decoding ignores a
    following rune start; the space encodings decode to their runes at both
    ends; \<open>TrimLeftFunc\<close> and \<open>TrimRightFunc\<close> with \<open>unicode.IsSpace\<close> are the
    byte-level \<open>trim_left_space\<close> and \<open>trim_right_space\<close>, invalid sequences
    included; \<open>go_trim_space = trim_space\<close> (\<open>go_trim_space_eq\<close>), so the
    byte-level trim the parser model uses is the library's; and a space
    encoding added at either end does not change the result
    (\<open>trim_space_pad\<close>).
  \<^item> \<open>Go_CSV\<close>: one \<open>Reader.Read\<close> with \<open>Comma = ';'\<close> (also library code, from
    its documentation): line normalisation, skipped empty lines, quoted and
    unquoted fields and the three errors.  Lemmas: on quote-free single lines it
    is \<open>Split\<close>, the writer's quoting reads back, the quote errors, an unquoted
    line ends the record, and a length bound.
  \<^item> \<open>GoIP_Receive\<close>: \<open>GoIPMessage\<close> (a record), \<open>parseGoIPMessage\<close> and its loop
    (\<open>apply_fields\<close> over \<open>apply_field\<close>, the \<open>switch\<close> as \<open>set_field\<close>); the
    abstract specification \<open>receive_spec\<close> (last well-formed pair per key wins)
    and the refinement, error, skipping, order-independence and cleanliness
    results, and the round trip with the device's wire format
    \<open>render_receive\<close>.
  \<^item> \<open>GoIP_KeepAlive\<close>: \<open>keepalive_csv_message\<close>, \<open>format_response\<close> and
    \<open>keepalive_reply\<close>, whose outcome is a CSV error, the index panic of
    \<open>messageArray[1]\<close>, or the reply; what is answered to plain, quoted,
    malformed and multi-line datagrams.
  \<^item> \<open>GoIP_Server\<close>: one iteration of the loop of \<open>main\<close>.  Effects (log events
    and sent datagrams) are values; the state is the trace of effects and
    whether the process runs (\<open>Running\<close>/\<open>Exited\<close>); the environment is a list
    of \<open>net_event\<close>s (a read error, or a datagram with payload, sender and
    whether the send to it succeeds).  \<open>server_start\<close> is lines 22--40,
    \<open>server_step\<close> one iteration of lines 43--92 (through \<open>read_message\<close>,
    \<open>classify\<close>, \<open>handle_receive\<close>, \<open>handle_keepalive\<close>, \<open>handle_datagram\<close>),
    \<open>server_run\<close> the loop over a list of events, \<open>reachable\<close> the inductive set
    of reachable states.  Lemmas: every sent datagram answers a received
    keep-alive (rule induction over \<open>reachable\<close>), its length bound, at most one
    send per event, the exact crash condition, and the behaviour of each
    branch.
  \<^item> \<open>GoIP_Logging\<close>: each logrus call as an entry (\<open>log_entry_of\<close>: level,
    message text, \<open>logrus.Fields\<close>, \<open>WithError\<close>).  Lemmas: no iteration logs
    at level Fatal and an Error entry never stops the loop; the receipt entry
    carries the device password.
  \<^item> \<open>GoIP_Main\<close>: the process, \<open>goip_main\<close> = startup then \<open>main_loop\<close>, whose
    value is \<open>Some\<close> of the final state when the process ends and \<open>None\<close> when it
    is still blocked in \<open>ReadFromUDP\<close> after the last event.  Lemmas: when the
    program returns (termination), progress of a run without panics
    (liveness: every datagram logged and every due reply sent, in order), and
    the well-formedness invariant \<open>state_wf\<close> of every reachable state.
  \<^item> \<open>GoIP_Process\<close>: the process state around the loop, a record of the
    server state, the socket (\<open>sock_state\<close>: none, open by \<open>ListenUDP\<close>,
    closed), the pending deferred calls (\<open>defer conn.Close()\<close>, line 38) and
    the exit status; \<open>fatal_exit\<close> is \<open>log.Fatal\<close> (\<open>os.Exit(1)\<close>, deferred
    calls not run), \<open>panic_exit\<close> the panic of line 82 (deferred calls run,
    status 2); \<open>proc_start\<close>, \<open>proc_step\<close>, \<open>proc_run\<close>.  Lemma: the process
    refines the server loop through \<open>proc_abs\<close>, so the socket is open exactly
    while the loop runs and is closed when the panic ends the process.
  \<^item> This theory joins the parser model to \<open>Go_UTF8\<close>: a field padded with
    a Unicode white-space rune around its key and its value has the effect of
    the unpadded field (\<open>apply_field_space_padding\<close>), the behaviour behind
    the finding on which white space is trimmed.

  \<^bold>\<open>Bounds and loops.\<close> Strings are unbounded lists; the only bound of the
  program is the 2048-byte read buffer, modelled by \<open>read_message\<close>
  (\<open>take 2048\<close>), from which the 2064-byte bound on replies follows.  No
  function needs fuel: the string and CSV loops are structural recursions or
  have a termination proof by length (the UTF-8 scans by the length of the
  suffix or prefix still to scan, since every decoded width is positive), and
  the server loop, which has no exit
  of its own, is a recursion over the finite list of events the environment
  delivers, with \<open>None\<close> standing for the read that never returns.

  \<^bold>\<open>Not modelled.\<close> The network behind the socket: the results of
  \<open>ResolveUDPAddr\<close>, \<open>ListenUDP\<close>, \<open>ReadFromUDP\<close> and \<open>WriteToUDP\<close> are inputs
  of the environment (success flags and datagrams; the buffer's truncation and
  the socket's open/closed state are modelled), \<open>addr.String()\<close> (addresses
  are opaque strings), the error values attached by \<open>WithError\<close> and the
  output format of logrus, the code points a decoded invalid sequence would
  carry (only \<open>RuneError\<close> and the widths matter to \<open>TrimSpace\<close>, and both
  are modelled), \<open>utf8.EncodeRune\<close> on surrogates and runes above U+10FFFF
  (the program encodes nothing; \<open>utf8_encode\<close> only names the space
  encodings), and Go's \<open>SplitN\<close> with an empty separator and \<open>Split\<close> with
  multi-byte separators, which the program never uses.  Nothing more of
  \<open>src/main.go\<close> is left: every statement of \<open>main\<close> and
  \<open>parseGoIPMessage\<close> is a definition of some theory.

  \<^bold>\<open>Findings.\<close> A keep-alive whose record has fewer than two fields, e.g. the
  datagram \<open>req\<close>, panics and ends the server (the spec asks for a format
  error); a field value holding \<open>:\<close> is dropped, while the spec says the first
  colon separates key and value; the raw datagram, password included, is logged
  before parsing; datagrams are cut at 2048 bytes without notice; a keep-alive
  is answered from its first line only; the trimmed white space is every
  Unicode White_Space rune (no-break and ideographic spaces included), which
  the spec leaves open.

  \<^bold>\<open>Plan for later work.\<close> Quoted CSV fields spanning lines; the
  encode/decode round trip of \<open>utf8_encode\<close> and \<open>decode_rune\<close> on all valid
  runes (here proved on the space runes only, which is what \<open>TrimSpace\<close>
  needs).
\<close>

subsection \<open>The parser and Unicode white space\<close>

text \<open>C19: a field of a RECEIVE payload padded with one Unicode White_Space rune in UTF-8 (a no-break space U+00A0, an ideographic space U+3000, or an ASCII space) before and after its key and before and after its value has the same effect on the message as the unpadded field: the loop body trims each side with strings.TrimSpace, which strips every such rune, and the padding never contains the separator.\<close>

theorem apply_field_space_padding:
  assumes "is_space_rune r"
  shows "apply_field m (utf8_encode r @ k @ utf8_encode r @ '':'' @ utf8_encode r @ v @ utf8_encode r) =
         apply_field m (k @ '':'' @ v)"
proof -
  let ?e = "utf8_encode r"
  have e: "?e \<in> set go_space_encodings" using assms space_encoding_rune by blast
  have ne: "CHR '':'' \<notin> set ?e" by (rule space_encoding_colon [OF e])
  have cnt: "count_list (?e @ k @ ?e @ '':'' @ ?e @ v @ ?e) CHR '':'' = count_list (k @ '':'' @ v) CHR '':''"
    using ne by (simp add: count_list_0_iff)
  show ?thesis
  proof (cases "CHR '':'' \<in> set k \<or> CHR '':'' \<in> set v")
    case True
    then have "count_list (k @ '':'' @ v) CHR '':'' \<noteq> 1" by (auto simp: count_list_0_iff)
    then show ?thesis
      unfolding apply_field_def Let_def length_go_split cnt by simp
  next
    case False
    have "go_split (?e @ k @ ?e @ '':'' @ ?e @ v @ ?e) CHR '':'' = [?e @ k @ ?e, ?e @ v @ ?e]"
      using go_split_append_sep [of "CHR '':''" "?e @ k @ ?e" "?e @ v @ ?e"] go_split_no_sep [of "CHR '':''" "?e @ v @ ?e"]
        False ne by simp
    moreover have "go_split (k @ '':'' @ v) CHR '':'' = [k, v]"
      using go_split_append_sep [of "CHR '':''" k v] go_split_no_sep [of "CHR '':''" v] False by simp
    ultimately show ?thesis
      by (simp add: apply_field_def trim_space_pad [OF e])
  qed
qed

theorem apply_field_space_padding_witness:
  "is_space_rune 0xA0 \<and>
   apply_field (new_message ''1.2.3.4:5000'') (utf8_encode 0xA0 @ ''msg'' @ utf8_encode 0xA0 @ '':'' @ utf8_encode 0xA0 @ ''Hi'' @ utf8_encode 0xA0) =
   apply_field (new_message ''1.2.3.4:5000'') (''msg'' @ '':'' @ ''Hi'')"
proof -
  have s: "is_space_rune 0xA0" by (simp add: is_space_rune_def)
  show ?thesis using apply_field_space_padding [OF s] s by blast
qed

end
